theory Spec2Isabelle
  imports Main "HOL-Library.Sublist"
begin

section \<open>Python and JavaScript strings\<close>

text \<open>
  A Python \<^verbatim>\<open>str\<close> is a sequence of Unicode code points. A code point is a natural
  number here, so that the whitespace classes of Python and of JavaScript, which differ
  outside ASCII, can both be written out in full.
\<close>

type_synonym pystr = "nat list"

abbreviation lit :: "string \<Rightarrow> pystr" where
  "lit s \<equiv> map of_char s"

text \<open>
  \<^verbatim>\<open>str.isspace\<close> on one code point: U+0009..U+000D, U+001C..U+0020, U+0085, U+00A0,
  U+1680, U+2000..U+200A, U+2028, U+2029, U+202F, U+205F, U+3000. This is the class
  that \<^verbatim>\<open>str.strip()\<close> and \<^verbatim>\<open>str.split()\<close> without arguments use.
\<close>

definition py_isspace :: "nat \<Rightarrow> bool" where
  "py_isspace c \<longleftrightarrow>
     (9 \<le> c \<and> c \<le> 13) \<or> (28 \<le> c \<and> c \<le> 32) \<or> c = 133 \<or> c = 160 \<or> c = 5760 \<or>
     (8192 \<le> c \<and> c \<le> 8202) \<or> c = 8232 \<or> c = 8233 \<or> c = 8239 \<or> c = 8287 \<or> c = 12288"

text \<open>
  The class that JavaScript's \<^verbatim>\<open>String.prototype.trim\<close> removes (WhiteSpace and
  LineTerminator of ECMAScript): it has U+FEFF and lacks U+001C..U+001F and U+0085.
\<close>

definition js_isspace :: "nat \<Rightarrow> bool" where
  "js_isspace c \<longleftrightarrow>
     (9 \<le> c \<and> c \<le> 13) \<or> c = 32 \<or> c = 160 \<or> c = 5760 \<or> (8192 \<le> c \<and> c \<le> 8202) \<or>
     c = 8232 \<or> c = 8233 \<or> c = 8239 \<or> c = 8287 \<or> c = 12288 \<or> c = 65279"

text \<open>Removing the characters of a class from the right end, and from both ends.\<close>

definition rstrip_with :: "('a \<Rightarrow> bool) \<Rightarrow> 'a list \<Rightarrow> 'a list" where
  "rstrip_with P s = rev (dropWhile P (rev s))"

definition strip_with :: "('a \<Rightarrow> bool) \<Rightarrow> 'a list \<Rightarrow> 'a list" where
  "strip_with P s = rstrip_with P (dropWhile P s)"

text \<open>\<^verbatim>\<open>s.strip()\<close> of Python and \<^verbatim>\<open>s.trim()\<close> of JavaScript.\<close>

definition py_strip :: "pystr \<Rightarrow> pystr" where
  "py_strip s = strip_with py_isspace s"

definition js_trim :: "pystr \<Rightarrow> pystr" where
  "js_trim s = strip_with js_isspace s"

text \<open>
  \<^verbatim>\<open>s.split()\<close> with no separator: runs of whitespace separate the words, and no
  empty word is produced. The first argument is the word being collected.
\<close>

fun split_ws :: "pystr \<Rightarrow> pystr \<Rightarrow> pystr list" where
  "split_ws w [] = (if w = [] then [] else [w])"
| "split_ws w (c # cs) =
     (if py_isspace c then (if w = [] then split_ws [] cs else w # split_ws [] cs)
      else split_ws (w @ [c]) cs)"

definition py_split :: "pystr \<Rightarrow> pystr list" where
  "py_split s = split_ws [] s"

text \<open>\<^verbatim>\<open>s.startswith(p)\<close>\<close>

definition py_startswith :: "pystr \<Rightarrow> pystr \<Rightarrow> bool" where
  "py_startswith s p \<longleftrightarrow> take (length p) s = p"

text \<open>
  \<^verbatim>\<open>s.split(sep)\<close> with a non-empty separator: the string is cut at the occurrences
  of \<^verbatim>\<open>sep\<close>, found from left to right without overlap, and the pieces between them
  are returned, empty ones included. The second argument is the piece being collected.
  (Python raises \<^verbatim>\<open>ValueError\<close> on an empty separator; the only call in the program
  passes a literal of four characters.)
\<close>

function split_sep :: "pystr \<Rightarrow> pystr \<Rightarrow> pystr \<Rightarrow> pystr list" where
  "split_sep sep cur s =
     (if s = [] then [cur]
      else if sep \<noteq> [] \<and> take (length sep) s = sep
        then cur # split_sep sep [] (drop (length sep) s)
      else split_sep sep (cur @ [hd s]) (tl s))"
  by pat_completeness auto
termination
  by (relation "measure (\<lambda>(sep, cur, s). length s)") auto

declare split_sep.simps [simp del]

definition py_split_sep :: "pystr \<Rightarrow> pystr \<Rightarrow> pystr list" where
  "py_split_sep s sep = split_sep sep [] s"

section \<open>Exceptions\<close>

text \<open>
  The exceptions the program can meet. \<^verbatim>\<open>TimeoutException\<close> and
  \<^verbatim>\<open>StaleElementReferenceException\<close> are subclasses of Selenium's
  \<^verbatim>\<open>WebDriverException\<close>; the constructor \<open>WebDriverException\<close> stands for that class
  and each of its other subclasses. \<open>OSError\<close> stands for the subclasses of Python's
  \<^verbatim>\<open>OSError\<close> other than \<^verbatim>\<open>FileNotFoundError\<close> (\<^verbatim>\<open>NotADirectoryError\<close>,
  \<^verbatim>\<open>IsADirectoryError\<close>, \<^verbatim>\<open>FileExistsError\<close>, \<^verbatim>\<open>PermissionError\<close>).
  \<open>OtherException\<close> stands for every other exception outside Selenium's hierarchy (a
  \<^verbatim>\<open>RuntimeError\<close> of the tensor library, a connection error of the HTTP client, ...).
\<close>

datatype exn =
    TimeoutException
  | StaleElementReferenceException
  | WebDriverException
  | IndexError
  | FileNotFoundError
  | OSError
  | OtherException

text \<open>\<^verbatim>\<open>isinstance(e, WebDriverException)\<close>\<close>

fun is_WebDriverException :: "exn \<Rightarrow> bool" where
  "is_WebDriverException TimeoutException = True"
| "is_WebDriverException StaleElementReferenceException = True"
| "is_WebDriverException WebDriverException = True"
| "is_WebDriverException _ = False"

text \<open>\<^verbatim>\<open>xs[i]\<close> for a non-negative index.\<close>

definition py_index :: "'a list \<Rightarrow> nat \<Rightarrow> exn + 'a" where
  "py_index xs i = (if i < length xs then Inr (xs ! i) else Inl IndexError)"

section \<open>Text Extractor (\<^verbatim>\<open>main.py\<close>: the script of \<^verbatim>\<open>get_all_leaf_nodes_text\<close>)\<close>

text \<open>
  A node of the rendered document: its \<^verbatim>\<open>nodeType\<close>, its \<^verbatim>\<open>textContent\<close> (read by the
  script at leaves only, where it is the node's own character data) and its
  \<^verbatim>\<open>childNodes\<close> in document order.
\<close>

datatype node = Node (nodeType: nat) (textContent: pystr) (childNodes: "node list")

definition TEXT_NODE :: nat where
  "TEXT_NODE = 3"

text \<open>
  \<^verbatim>\<open>getAllLeafNodesText(element)\<close>. The \<^verbatim>\<open>for\<close> loop over the children is the
  \<open>foldl\<close>: \<^verbatim>\<open>nodes = nodes.concat(getAllLeafNodesText(child))\<close>.
\<close>

fun getAllLeafNodesText :: "node \<Rightarrow> pystr list" where
  "getAllLeafNodesText (Node ty content children) =
     (if children \<noteq> [] then
        foldl (\<lambda>nodes child. nodes @ getAllLeafNodesText child) [] children
      else if ty = TEXT_NODE \<and> js_trim content \<noteq> [] then [js_trim content]
      else [])"

text \<open>
  The specification's side: all nodes of a tree in depth-first pre-order, and the leaf
  text nodes whose content is not entirely whitespace.
\<close>

fun preorder :: "node \<Rightarrow> node list" where
  "preorder (Node ty content children) =
     Node ty content children # concat (map preorder children)"

definition text_leaf :: "node \<Rightarrow> bool" where
  "text_leaf n \<longleftrightarrow>
     childNodes n = [] \<and> nodeType n = TEXT_NODE \<and> \<not> list_all js_isspace (textContent n)"

section \<open>Candidate Filter (\<^verbatim>\<open>main.py\<close>: \<^verbatim>\<open>filter_text\<close>, \<^verbatim>\<open>get_candidate_names\<close>)\<close>

text \<open>
  \<^verbatim>\<open>conditions\<close> holds two lambdas; the first returns the stripped string, which is
  true in a boolean context exactly when it is not empty.
\<close>

definition conditions :: "(pystr \<Rightarrow> bool) list" where
  "conditions = [\<lambda>t. py_strip t \<noteq> [], \<lambda>t. length (py_split t) \<le> 10]"

definition filter_text :: "pystr \<Rightarrow> bool" where
  "filter_text text = list_all (\<lambda>cond. cond text) conditions"

definition get_candidate_names :: "pystr list \<Rightarrow> pystr list" where
  "get_candidate_names leaf_nodes_text = [text \<leftarrow> leaf_nodes_text. filter_text text]"

text \<open>
  The specification's word count, written without reference to \<^verbatim>\<open>split\<close>: the number
  of positions at which a word starts, that is, a character that is not whitespace and
  is either the first one or preceded by whitespace. The flag says whether the previous
  character belonged to a word.
\<close>

fun count_word_starts :: "bool \<Rightarrow> pystr \<Rightarrow> nat" where
  "count_word_starts inw [] = 0"
| "count_word_starts inw (c # cs) =
     (if py_isspace c then count_word_starts False cs
      else (if inw then 0 else 1) + count_word_starts True cs)"

definition word_count :: "pystr \<Rightarrow> nat" where
  "word_count s = count_word_starts False s"

section \<open>Collaborators and the state of a run\<close>

text \<open>
  The browser session and the classifier are external and stateful. Their state is a
  value of an arbitrary type \<open>'w\<close> that every call may change, also when it raises.
  \<^item> \<open>driver_get w url\<close> is \<^verbatim>\<open>driver.get(url)\<close>;
  \<^item> \<open>wait_until_body w\<close> is \<^verbatim>\<open>WebDriverWait(driver, TIMEOUT).until(...)\<close> for the
    presence of the \<^verbatim>\<open>body\<close> element;
  \<^item> \<open>execute_script w\<close> is \<^verbatim>\<open>driver.execute_script(script)\<close>: it raises, or gives the
    script the \<^verbatim>\<open>document.body\<close> of the loaded page;
  \<^item> \<open>classify_batch w batch\<close> is the tokenizer call, the forward pass and
    \<^verbatim>\<open>outputs.logits.argmax(axis=1).tolist()\<close>: the predicted class index of each item.
\<close>

record 'w collaborators =
  driver_get :: "'w \<Rightarrow> pystr \<Rightarrow> 'w \<times> exn option"
  wait_until_body :: "'w \<Rightarrow> 'w \<times> exn option"
  execute_script :: "'w \<Rightarrow> 'w \<times> (exn + node)"
  classify_batch :: "'w \<Rightarrow> pystr list \<Rightarrow> 'w \<times> (exn + nat list)"

text \<open>
  The three messages the program logs: \<^verbatim>\<open>Processing URL: {url}\<close>,
  \<^verbatim>\<open>Error encountered: {e}\<close> and \<^verbatim>\<open>WebDriverException for URL {url}: {e}\<close>.
\<close>

datatype log_entry =
    Info_Processing_URL pystr
  | Error_encountered exn
  | Error_WebDriverException_for_URL pystr exn

text \<open>
  A file or a directory is located by the names that lead to it from the root
  directory.
\<close>

type_synonym location = "pystr list"

text \<open>
  The state a run threads: the collaborators' state, the log, and the file system, which
  is the working directory of the process, the directories that exist (the root
  directory always does), the text files by location, and the locations that the
  operating system refuses this process to create or to open. (Symbolic links are not
  part of it, nor are the progress bar and the status text of the dashboard.)
\<close>

record 'w run_state =
  world :: 'w
  log :: "log_entry list"
  cwd :: location
  dirs :: "location set"
  files :: "location \<rightharpoonup> pystr"
  denied :: "location set"

definition logging :: "log_entry \<Rightarrow> 'w run_state \<Rightarrow> 'w run_state" where
  "logging entry st = st\<lparr>log := log st @ [entry]\<rparr>"

text \<open>Writing to a file that is open for writing appends to what was written before.\<close>

definition file_write :: "location \<Rightarrow> pystr \<Rightarrow> 'w run_state \<Rightarrow> 'w run_state" where
  "file_write path data st =
     st\<lparr>files := (files st)(path \<mapsto> (case files st path of None \<Rightarrow> data | Some old \<Rightarrow> old @ data))\<rparr>"

fun file_writelines :: "location \<Rightarrow> pystr list \<Rightarrow> 'w run_state \<Rightarrow> 'w run_state" where
  "file_writelines path [] st = st"
| "file_writelines path (l # ls) st = file_writelines path ls (file_write path l st)"

section \<open>Page text (\<^verbatim>\<open>main.py\<close>: \<^verbatim>\<open>get_all_leaf_nodes_text\<close>)\<close>

definition get_all_leaf_nodes_text ::
  "'w collaborators \<Rightarrow> 'w run_state \<Rightarrow> 'w run_state \<times> (exn + pystr list)" where
  "get_all_leaf_nodes_text env st =
     (case execute_script env (world st) of
        (w, Inl e) \<Rightarrow> (st\<lparr>world := w\<rparr>, Inl e)
      | (w, Inr body) \<Rightarrow> (st\<lparr>world := w\<rparr>, Inr (getAllLeafNodesText body)))"

section \<open>Batch Classifier (\<^verbatim>\<open>main.py\<close>: \<^verbatim>\<open>model_inference\<close>)\<close>

definition BATCH_SIZE :: nat where
  "BATCH_SIZE = 64"

text \<open>
  \<^verbatim>\<open>[batch[i] for i in range(len(batch)) if is_furniture[i]]\<close>: a class index is true
  when it is not 0, and reading \<^verbatim>\<open>is_furniture[i]\<close> past its end raises.
\<close>

definition select_positive :: "pystr list \<Rightarrow> nat list \<Rightarrow> exn + pystr list" where
  "select_positive batch is_furniture =
     (if length is_furniture < length batch then Inl IndexError
      else Inr [batch ! i. i \<leftarrow> [0..<length batch], is_furniture ! i \<noteq> 0])"

text \<open>The body of the loop for one batch: the positives of the batch.\<close>

definition classify_chunk ::
  "'w collaborators \<Rightarrow> pystr list \<Rightarrow> 'w run_state \<Rightarrow> 'w run_state \<times> (exn + pystr list)" where
  "classify_chunk env batch st =
     (case classify_batch env (world st) batch of
        (w, Inl e) \<Rightarrow> (st\<lparr>world := w\<rparr>, Inl e)
      | (w, Inr is_furniture) \<Rightarrow> (st\<lparr>world := w\<rparr>, select_positive batch is_furniture))"

text \<open>
  \<^verbatim>\<open>for i in range(0, len(names), B)\<close> with \<^verbatim>\<open>batch = names[i : i + B]\<close> and the
  accumulator \<^verbatim>\<open>product_names\<close>. The program's step \<open>B\<close> is \<^verbatim>\<open>BATCH_SIZE\<close>; a step
  of 0, on which \<^verbatim>\<open>range\<close> raises, does not occur, and the loop is not entered for it.
\<close>

function batch_loop ::
  "'w collaborators \<Rightarrow> nat \<Rightarrow> pystr list \<Rightarrow> nat \<Rightarrow> pystr list \<Rightarrow> 'w run_state \<Rightarrow>
     'w run_state \<times> (exn + pystr list)" where
  "batch_loop env B names i product_names st =
     (if i < length names \<and> 0 < B then
        (case classify_chunk env (take B (drop i names)) st of
           (st', Inl e) \<Rightarrow> (st', Inl e)
         | (st', Inr positives) \<Rightarrow> batch_loop env B names (i + B) (product_names @ positives) st')
      else (st, Inr product_names))"
  by pat_completeness auto
termination
  by (relation "measure (\<lambda>(env, B, names, i, product_names, st). length names - i)") auto

declare batch_loop.simps [simp del]

definition model_inference ::
  "'w collaborators \<Rightarrow> pystr list \<Rightarrow> 'w run_state \<Rightarrow> 'w run_state \<times> (exn + pystr list)" where
  "model_inference env names st = batch_loop env BATCH_SIZE names 0 [] st"

text \<open>
  The specification's side: any partition of the candidates into chunks, each chunk
  classified by the body of the loop, the positives concatenated.
\<close>

fun classify_chunks ::
  "'w collaborators \<Rightarrow> pystr list list \<Rightarrow> pystr list \<Rightarrow> 'w run_state \<Rightarrow>
     'w run_state \<times> (exn + pystr list)" where
  "classify_chunks env [] acc st = (st, Inr acc)"
| "classify_chunks env (chunk # chunks) acc st =
     (case classify_chunk env chunk st of
        (st', Inl e) \<Rightarrow> (st', Inl e)
      | (st', Inr positives) \<Rightarrow> classify_chunks env chunks (acc @ positives) st')"

text \<open>
  The partition into contiguous chunks of \<open>B\<close> items, the last one possibly smaller.
\<close>

function chunks_of :: "nat \<Rightarrow> 'a list \<Rightarrow> 'a list list" where
  "chunks_of B xs = (if xs = [] \<or> B = 0 then [] else take B xs # chunks_of B (drop B xs))"
  by pat_completeness auto
termination
  by (relation "measure (\<lambda>(B, xs). length xs)") auto

declare chunks_of.simps [simp del]

text \<open>
  A frozen classifier that labels each candidate on its own: whatever the batch and the
  state, the class index of an item is \<open>label item\<close>.
\<close>

definition labels_items :: "'w collaborators \<Rightarrow> (pystr \<Rightarrow> nat) \<Rightarrow> bool" where
  "labels_items env label \<longleftrightarrow>
     (\<forall>w batch. snd (classify_batch env w batch) = Inr (map label batch))"

section \<open>Page Scraper (\<^verbatim>\<open>main.py\<close>: \<^verbatim>\<open>scrape_product_names\<close>)\<close>

text \<open>The body of the \<^verbatim>\<open>try\<close> statement.\<close>

definition scrape_try ::
  "'w collaborators \<Rightarrow> pystr \<Rightarrow> 'w run_state \<Rightarrow> 'w run_state \<times> (exn + pystr list)" where
  "scrape_try env url st =
     (case driver_get env (world st) url of
        (w1, Some e) \<Rightarrow> (st\<lparr>world := w1\<rparr>, Inl e)
      | (w1, None) \<Rightarrow>
          (case wait_until_body env w1 of
             (w2, Some e) \<Rightarrow> (st\<lparr>world := w2\<rparr>, Inl e)
           | (w2, None) \<Rightarrow>
               (case get_all_leaf_nodes_text env (st\<lparr>world := w2\<rparr>) of
                  (st3, Inl e) \<Rightarrow> (st3, Inl e)
                | (st3, Inr leaf_nodes_text) \<Rightarrow>
                    model_inference env (get_candidate_names leaf_nodes_text) st3)))"

text \<open>
  The result is \<open>Inl e\<close> when the exception \<open>e\<close> leaves the function, \<open>Inr (Some names)\<close>
  when it returns a list, and \<open>Inr None\<close> when it returns Python's \<^verbatim>\<open>None\<close>: both
  handlers only log, and the function then ends without a \<^verbatim>\<open>return\<close> statement.
\<close>

definition scrape_product_names ::
  "'w collaborators \<Rightarrow> pystr \<Rightarrow> 'w run_state \<Rightarrow> 'w run_state \<times> (exn + pystr list option)" where
  "scrape_product_names env url st =
     (case scrape_try env url (logging (Info_Processing_URL url) st) of
        (st', Inr names) \<Rightarrow> (st', Inr (Some names))
      | (st', Inl e) \<Rightarrow>
          if e = TimeoutException \<or> e = StaleElementReferenceException
            then (logging (Error_encountered e) st', Inr None)
          else if is_WebDriverException e
            then (logging (Error_WebDriverException_for_URL url e) st', Inr None)
          else (st', Inl e))"

text \<open>
  The specification's side: the exception, if any, that navigation, the readiness wait
  or the extraction script raises for a URL, the collaborators being in state \<open>w\<close>.
\<close>

definition browser_failure :: "'w collaborators \<Rightarrow> 'w \<Rightarrow> pystr \<Rightarrow> exn option" where
  "browser_failure env w url =
     (case driver_get env w url of
        (w1, Some e) \<Rightarrow> Some e
      | (w1, None) \<Rightarrow>
          (case wait_until_body env w1 of
             (w2, Some e) \<Rightarrow> Some e
           | (w2, None) \<Rightarrow>
               (case execute_script env w2 of
                  (w3, Inl e) \<Rightarrow> Some e
                | (w3, Inr body) \<Rightarrow> None)))"

text \<open>The line that the handler catching \<open>e\<close> writes to the log.\<close>

definition handler_entry :: "pystr \<Rightarrow> exn \<Rightarrow> log_entry" where
  "handler_entry url e =
     (if e = TimeoutException \<or> e = StaleElementReferenceException then Error_encountered e
      else Error_WebDriverException_for_URL url e)"

section \<open>Run Orchestrator (\<^verbatim>\<open>main.py\<close>: \<^verbatim>\<open>produce_output\<close>)\<close>

text \<open>
  The body of the \<^verbatim>\<open>for\<close> loop for one URL. \<^verbatim>\<open>if product_names:\<close> is false for
  \<^verbatim>\<open>None\<close> and for the empty list. The second component is the exception that leaves
  the loop, if any.
\<close>

definition process_url ::
  "'w collaborators \<Rightarrow> location \<Rightarrow> pystr \<Rightarrow> 'w run_state \<Rightarrow> 'w run_state \<times> exn option" where
  "process_url env output_file url st =
     (case scrape_product_names env url st of
        (st', Inr product_names) \<Rightarrow>
          (case product_names of
             None \<Rightarrow> (st', None)
           | Some names \<Rightarrow>
               if names \<noteq> [] then
                 (file_writelines output_file (map (\<lambda>name. name @ lit ''\<newline>'') names)
                    (file_write output_file (lit ''\<newline>URL: '' @ url @ lit ''\<newline>'') st'),
                  None)
               else (st', None))
      | (st', Inl e) \<Rightarrow>
          if is_WebDriverException e
            then (logging (Error_WebDriverException_for_URL url e) st', None)
          else (st', Some e))"

fun url_loop ::
  "'w collaborators \<Rightarrow> location \<Rightarrow> pystr list \<Rightarrow> 'w run_state \<Rightarrow> 'w run_state \<times> exn option" where
  "url_loop env output_file [] st = (st, None)"
| "url_loop env output_file (url # urls) st =
     (case process_url env output_file url st of
        (st', Some e) \<Rightarrow> (st', Some e)
      | (st', None) \<Rightarrow> url_loop env output_file urls st')"

text \<open>
  Reading a file in text mode with the default \<^verbatim>\<open>newline=None\<close> translates
  \<^verbatim>\<open>\r\n\<close> and \<^verbatim>\<open>\r\<close> to \<^verbatim>\<open>\n\<close>.
\<close>

fun universal_newlines :: "pystr \<Rightarrow> pystr" where
  "universal_newlines [] = []"
| "universal_newlines [c] = [if c = 13 then 10 else c]"
| "universal_newlines (c # d # cs) =
     (if c = 13 \<and> d = 10 then 10 # universal_newlines cs
      else if c = 13 then 10 # universal_newlines (d # cs)
      else c # universal_newlines (d # cs))"

text \<open>
  \<^verbatim>\<open>str.splitlines()\<close>: lines end at \<^verbatim>\<open>\n\<close>, \<^verbatim>\<open>\r\<close>, \<^verbatim>\<open>\r\n\<close>, \<^verbatim>\<open>\v\<close>, \<^verbatim>\<open>\f\<close>,
  U+001C, U+001D, U+001E, U+0085, U+2028 and U+2029; the line ends are dropped, and a
  final line end opens no empty line.
\<close>

definition is_linebreak :: "nat \<Rightarrow> bool" where
  "is_linebreak c \<longleftrightarrow> (10 \<le> c \<and> c \<le> 13) \<or> (28 \<le> c \<and> c \<le> 30) \<or> c = 133 \<or> c = 8232 \<or> c = 8233"

fun splitlines_from :: "pystr \<Rightarrow> pystr \<Rightarrow> pystr list" where
  "splitlines_from cur [] = (if cur = [] then [] else [cur])"
| "splitlines_from cur [c] = (if is_linebreak c then [cur] else [cur @ [c]])"
| "splitlines_from cur (c # d # cs) =
     (if c = 13 \<and> d = 10 then cur # splitlines_from [] cs
      else if is_linebreak c then cur # splitlines_from [] (d # cs)
      else splitlines_from (cur @ [c]) (d # cs))"

definition py_splitlines :: "pystr \<Rightarrow> pystr list" where
  "py_splitlines s = splitlines_from [] s"

text \<open>
  \<^verbatim>\<open>os.path.join(a, b)\<close> on POSIX: an absolute \<^verbatim>\<open>b\<close> replaces \<^verbatim>\<open>a\<close>; otherwise a
  slash is put between them unless \<^verbatim>\<open>a\<close> is empty or ends with one.
\<close>

definition os_path_join :: "pystr \<Rightarrow> pystr \<Rightarrow> pystr" where
  "os_path_join a b =
     (if py_startswith b (lit ''/'') then b
      else if a = [] \<or> last a = 47 then a @ b
      else a @ lit ''/'' @ b)"

definition output_directory :: pystr where
  "output_directory = lit ''furnitron/data/inference_output''"

text \<open>
  The constants \<^verbatim>\<open>URLS_FILE\<close> and \<^verbatim>\<open>OUTPUT_FILE\<close> of \<^verbatim>\<open>main.py\<close>, which \<^verbatim>\<open>main()\<close>
  passes to \<^verbatim>\<open>produce_output\<close>.
\<close>

definition main_URLS_FILE :: pystr where
  "main_URLS_FILE = lit ''furnitron/data/scraper_input/furniture_stores_pages_test.csv''"

definition main_OUTPUT_FILE :: pystr where
  "main_OUTPUT_FILE = lit ''furnitron/data/inference_output/product_names.txt''"

subsection \<open>Paths, \<^verbatim>\<open>os.makedirs\<close> and \<^verbatim>\<open>open\<close> on POSIX\<close>

text \<open>The components of a path: the pieces between its slashes.\<close>

fun split_slash :: "pystr \<Rightarrow> pystr \<Rightarrow> pystr list" where
  "split_slash cur [] = [cur]"
| "split_slash cur (c # cs) =
     (if c = 47 then cur # split_slash [] cs else split_slash (cur @ [c]) cs)"

definition path_components :: "pystr \<Rightarrow> pystr list" where
  "path_components p = split_slash [] p"

text \<open>
  The names a path is resolved by: an empty component (of a doubled, a leading or a
  final slash) and the component \<^verbatim>\<open>.\<close> name the directory reached so far. A path
  that starts with a slash is resolved from the root directory, any other from the
  working directory.
\<close>

definition path_names :: "pystr \<Rightarrow> pystr list" where
  "path_names p = filter (\<lambda>c. c \<noteq> [] \<and> c \<noteq> lit ''.'') (path_components p)"

definition path_start :: "'w run_state \<Rightarrow> pystr \<Rightarrow> location" where
  "path_start st p = (if py_startswith p (lit ''/'') then [] else cwd st)"

definition is_dir :: "'w run_state \<Rightarrow> location \<Rightarrow> bool" where
  "is_dir st loc \<longleftrightarrow> loc = [] \<or> loc \<in> dirs st"

text \<open>
  The exception for a location that is used as a directory and is none:
  \<^verbatim>\<open>NotADirectoryError\<close> when a file is there, \<^verbatim>\<open>FileNotFoundError\<close> when nothing is.
\<close>

definition no_directory :: "'w run_state \<Rightarrow> location \<Rightarrow> exn" where
  "no_directory st loc = (if files st loc \<noteq> None then OSError else FileNotFoundError)"

text \<open>
  Resolving the names of a path from a directory: each name is looked up in the
  location reached so far, which has to be a directory; \<^verbatim>\<open>..\<close> leads to the parent
  (and from the root to the root). The location of the last name need not exist.
\<close>

fun lookup :: "'w run_state \<Rightarrow> location \<Rightarrow> pystr list \<Rightarrow> exn + location" where
  "lookup st cur [] = Inr cur"
| "lookup st cur (name # names) =
     (if \<not> is_dir st cur then Inl (no_directory st cur)
      else lookup st (if name = lit ''..'' then butlast cur else cur @ [name]) names)"

definition resolve :: "'w run_state \<Rightarrow> pystr \<Rightarrow> exn + location" where
  "resolve st p =
     (if p = [] then Inl FileNotFoundError else lookup st (path_start st p) (path_names p))"

text \<open>A path whose last component is empty, \<^verbatim>\<open>.\<close> or \<^verbatim>\<open>..\<close> names a directory.\<close>

definition names_directory :: "pystr \<Rightarrow> bool" where
  "names_directory p \<longleftrightarrow>
     last (path_components p) = [] \<or> last (path_components p) = lit ''.'' \<or>
     last (path_components p) = lit ''..''"

text \<open>
  \<^verbatim>\<open>os.makedirs(p, exist_ok=True)\<close> for a path \<open>p\<close> of plain names, which
  \<^verbatim>\<open>output_directory\<close> is: the directory and each of its ancestors are left in place
  when they exist and are created when they are missing; the call raises when a name on
  the way is a file, or when the operating system refuses to create a directory. The
  second component is the exception raised, if any.
\<close>

fun mkdirs :: "location \<Rightarrow> pystr list \<Rightarrow> 'w run_state \<Rightarrow> 'w run_state \<times> exn option" where
  "mkdirs cur [] st = (st, None)"
| "mkdirs cur (name # names) st =
     (if \<not> is_dir st cur then (st, Some (no_directory st cur))
      else if is_dir st (cur @ [name]) then mkdirs (cur @ [name]) names st
      else if files st (cur @ [name]) \<noteq> None \<or> cur @ [name] \<in> denied st then (st, Some OSError)
      else mkdirs (cur @ [name]) names (st\<lparr>dirs := insert (cur @ [name]) (dirs st)\<rparr>))"

definition os_makedirs :: "pystr \<Rightarrow> 'w run_state \<Rightarrow> 'w run_state \<times> exn option" where
  "os_makedirs p st = mkdirs (path_start st p) (path_names p) st"

text \<open>
  \<^verbatim>\<open>open(p, "w")\<close>: every directory on the way to the file has to exist
  (\<^verbatim>\<open>FileNotFoundError\<close> when one is missing, \<^verbatim>\<open>NotADirectoryError\<close> when a file has
  its name), the path must not name a directory (\<^verbatim>\<open>IsADirectoryError\<close>), and the
  operating system must not refuse the file (\<^verbatim>\<open>PermissionError\<close>). The file is then
  created, or emptied when it exists. The result is the open file, which is its
  location, and the state.
\<close>

definition open_w :: "'w run_state \<Rightarrow> pystr \<Rightarrow> exn + location \<times> 'w run_state" where
  "open_w st p =
     (case resolve st p of
        Inl e \<Rightarrow> Inl e
      | Inr loc \<Rightarrow>
          if names_directory p \<or> is_dir st loc then Inl OSError
          else if loc \<in> denied st then Inl OSError
          else Inr (loc, st\<lparr>files := (files st)(loc \<mapsto> [])\<rparr>))"

text \<open>
  \<^verbatim>\<open>open(p, "r")\<close> followed by \<^verbatim>\<open>read()\<close>: the text of the file, with the line ends
  translated; a missing file raises \<^verbatim>\<open>FileNotFoundError\<close>, a directory
  \<^verbatim>\<open>IsADirectoryError\<close>.
\<close>

definition open_r_read :: "'w run_state \<Rightarrow> pystr \<Rightarrow> exn + pystr" where
  "open_r_read st p =
     (case resolve st p of
        Inl e \<Rightarrow> Inl e
      | Inr loc \<Rightarrow>
          if is_dir st loc then Inl OSError
          else (case files st loc of
                  None \<Rightarrow> Inl FileNotFoundError
                | Some content \<Rightarrow>
                    if names_directory p \<or> loc \<in> denied st then Inl OSError
                    else Inr (universal_newlines content)))"

subsection \<open>\<^verbatim>\<open>produce_output\<close>\<close>

text \<open>
  \<^verbatim>\<open>produce_output(URLS_FILE, OUTPUT_FILE_NAME, ...)\<close>. The output directory is made, and
  the output file is opened in it with mode \<^verbatim>\<open>"w"\<close>, which empties it; then the file of
  URLs is opened and read, and the loop runs over its lines. An exception of any of
  these steps leaves the function, and the steps after it do not take place: when the
  output file cannot be opened, no file is emptied and no URL is processed.
\<close>

definition produce_output ::
  "'w collaborators \<Rightarrow> pystr \<Rightarrow> pystr \<Rightarrow> 'w run_state \<Rightarrow> 'w run_state \<times> exn option" where
  "produce_output env URLS_FILE OUTPUT_FILE_NAME st =
     (case os_makedirs output_directory st of
        (st0, Some e) \<Rightarrow> (st0, Some e)
      | (st0, None) \<Rightarrow>
          (let output_file_path = os_path_join output_directory OUTPUT_FILE_NAME in
           case open_w st0 output_file_path of
             Inl e \<Rightarrow> (st0, Some e)
           | Inr (output_file, st1) \<Rightarrow>
               (case open_r_read st1 URLS_FILE of
                  Inl e \<Rightarrow> (st1, Some e)
                | Inr content \<Rightarrow> url_loop env output_file (py_splitlines content) st1)))"

text \<open>
  The specification's side of the output format: a line is its text and a line feed; the
  block of a URL is a blank line, the line \<^verbatim>\<open>URL: <url>\<close> and one line per name; a URL
  contributes its block when its scrape returned a list that is not empty, and
  nothing otherwise.
\<close>

definition text_line :: "pystr \<Rightarrow> pystr" where
  "text_line s = s @ [10]"

definition url_marker_line :: "pystr \<Rightarrow> pystr" where
  "url_marker_line url = lit ''URL: '' @ url"

definition url_block :: "pystr \<Rightarrow> pystr list \<Rightarrow> pystr" where
  "url_block url names = concat (map text_line ([] # url_marker_line url # names))"

fun contribution :: "pystr \<times> (exn + pystr list option) \<Rightarrow> pystr" where
  "contribution (url, Inr (Some names)) = (if names = [] then [] else url_block url names)"
| "contribution (url, _) = []"

text \<open>
  The URLs a run reaches, in order, each with what the Page Scraper did for it in the
  state the run had reached: the run goes on after a URL unless an exception left the
  loop there.
\<close>

fun run_outcomes ::
  "'w collaborators \<Rightarrow> location \<Rightarrow> pystr list \<Rightarrow> 'w run_state \<Rightarrow>
     (pystr \<times> (exn + pystr list option)) list" where
  "run_outcomes env output_file [] st = []"
| "run_outcomes env output_file (url # urls) st =
     (url, snd (scrape_product_names env url st)) #
     (case process_url env output_file url st of
        (st', Some e) \<Rightarrow> []
      | (st', None) \<Rightarrow> run_outcomes env output_file urls st')"

text \<open>The URLs of the \<^verbatim>\<open>Processing URL\<close> lines of a log, in order.\<close>

fun processed_urls :: "log_entry list \<Rightarrow> pystr list" where
  "processed_urls [] = []"
| "processed_urls (Info_Processing_URL url # entries) = url # processed_urls entries"
| "processed_urls (_ # entries) = processed_urls entries"

text \<open>The content of a file, empty when there is none.\<close>

definition file_content :: "'w run_state \<Rightarrow> location \<Rightarrow> pystr" where
  "file_content st path = (case files st path of None \<Rightarrow> [] | Some text \<Rightarrow> text)"

text \<open>
  Collaborators that raise nothing but exceptions of Selenium's hierarchy, with a
  classifier that returns a class index for every item of its batch.
\<close>

definition raises_only_WebDriverException :: "'w collaborators \<Rightarrow> bool" where
  "raises_only_WebDriverException env \<longleftrightarrow>
     (\<forall>w url e. snd (driver_get env w url) = Some e \<longrightarrow> is_WebDriverException e) \<and>
     (\<forall>w e. snd (wait_until_body env w) = Some e \<longrightarrow> is_WebDriverException e) \<and>
     (\<forall>w e. snd (execute_script env w) = Inl e \<longrightarrow> is_WebDriverException e) \<and>
     (\<forall>w batch e. snd (classify_batch env w batch) = Inl e \<longrightarrow> is_WebDriverException e) \<and>
     (\<forall>w batch l. snd (classify_batch env w batch) = Inr l \<longrightarrow> length batch \<le> length l)"

section \<open>Search Indexer (\<^verbatim>\<open>swhoosh.py\<close>: \<^verbatim>\<open>add_data_to_index\<close>)\<close>

text \<open>A document of the index: the stored fields \<^verbatim>\<open>url\<close> and \<^verbatim>\<open>content\<close>.\<close>

datatype document = Document (url_field: pystr) (content_field: pystr)

definition URL_marker :: pystr where
  "URL_marker = lit ''URL:''"

text \<open>
  The body of the loop for one line. The state of the loop is \<^verbatim>\<open>current_url\<close> and the
  documents added to the writer so far.
\<close>

definition index_line :: "pystr \<Rightarrow> pystr \<times> document list \<Rightarrow> exn + pystr \<times> document list" where
  "index_line line0 s =
     (let line = py_strip line0 in
      if py_startswith line URL_marker then
        (case py_index (py_split_sep line URL_marker) 1 of
           Inl e \<Rightarrow> Inl e
         | Inr piece \<Rightarrow> Inr (py_strip piece, snd s))
      else if line \<noteq> [] then Inr (fst s, snd s @ [Document (fst s) line])
      else Inr s)"

fun index_lines :: "pystr list \<Rightarrow> pystr \<times> document list \<Rightarrow> exn + pystr \<times> document list" where
  "index_lines [] s = Inr s"
| "index_lines (line # lines) s =
     (case index_line line s of Inl e \<Rightarrow> Inl e | Inr s' \<Rightarrow> index_lines lines s')"

text \<open>
  \<^verbatim>\<open>for line in file\<close>: after the translation of line ends, a line runs up to and
  including the next \<^verbatim>\<open>\n\<close>, and the last line may lack it.
\<close>

fun lines_from :: "pystr \<Rightarrow> pystr \<Rightarrow> pystr list" where
  "lines_from cur [] = (if cur = [] then [] else [cur])"
| "lines_from cur (c # cs) =
     (if c = 10 then (cur @ [c]) # lines_from [] cs else lines_from (cur @ [c]) cs)"

definition file_lines :: "pystr \<Rightarrow> pystr list" where
  "file_lines text = lines_from [] (universal_newlines text)"

text \<open>
  \<^verbatim>\<open>add_data_to_index(index_dir, file_path)\<close>. The first argument is the committed
  content of the index in \<^verbatim>\<open>index_dir\<close>, \<open>None\<close> when \<^verbatim>\<open>open_dir\<close> raises; the second
  is the text of the file, \<open>None\<close> when it cannot be opened. The result is the committed
  content afterwards and the exception that was caught and printed, if any: the
  documents reach the index at \<^verbatim>\<open>writer.commit()\<close> only.
\<close>

definition add_data_to_index ::
  "document list option \<Rightarrow> pystr option \<Rightarrow> document list option \<times> exn option" where
  "add_data_to_index ix file =
     (case ix of
        None \<Rightarrow> (None, Some OtherException)
      | Some committed \<Rightarrow>
          (case file of
             None \<Rightarrow> (ix, Some FileNotFoundError)
           | Some text \<Rightarrow>
               (case index_lines (file_lines text) ([], []) of
                  Inl e \<Rightarrow> (ix, Some e)
                | Inr (current_url, added) \<Rightarrow> (Some (committed @ added), None))))"

text \<open>
  Strings that the indexer reads back as they are: on one line of the file, without
  surrounding whitespace, and, for a URL, free of the marker text; for a name, not
  empty and not starting with the marker.
\<close>

definition one_line :: "pystr \<Rightarrow> bool" where
  "one_line s \<longleftrightarrow> 10 \<notin> set s \<and> 13 \<notin> set s"

definition plain_url :: "pystr \<Rightarrow> bool" where
  "plain_url u \<longleftrightarrow> one_line u \<and> py_strip u = u \<and> \<not> sublist URL_marker u"

definition plain_name :: "pystr \<Rightarrow> bool" where
  "plain_name n \<longleftrightarrow> one_line n \<and> py_strip n = n \<and> n \<noteq> [] \<and> \<not> py_startswith n URL_marker"

section \<open>A scenario\<close>

text \<open>
  The scenario of the specification: the page of \<^verbatim>\<open>siteA.com\<close> has the leaf texts
  \<^verbatim>\<open>Oak Chair\<close>, \<^verbatim>\<open>Welcome to our store\<close> and \<^verbatim>\<open>Lamp\<close> (and a blank text node and an
  empty element), the classifier marks \<^verbatim>\<open>Oak Chair\<close>, \<^verbatim>\<open>Lamp\<close> and \<^verbatim>\<open>Pine Table\<close>
  positive, and \<^verbatim>\<open>siteB.com\<close> times out. Every other page has the single leaf text
  \<^verbatim>\<open>Pine Table\<close>. The state of the collaborators is the URL the browser is at.
\<close>

definition siteA :: pystr where
  "siteA = lit ''siteA.com''"

definition siteB :: pystr where
  "siteB = lit ''siteB.com''"

definition siteC :: pystr where
  "siteC = lit ''siteC.com''"

definition pageA :: node where
  "pageA = Node 1 []
     [Node 1 [] [Node 3 (lit ''  Oak Chair '') []],
      Node 1 [] [],
      Node 3 (lit ''   '') [],
      Node 1 [] [Node 3 (lit ''Welcome to our store'') [], Node 3 (lit ''Lamp'') []]]"

definition pageC :: node where
  "pageC = Node 1 [] [Node 3 (lit ''Pine Table'') []]"

definition demo_label :: "pystr \<Rightarrow> nat" where
  "demo_label name =
     (if name = lit ''Oak Chair'' \<or> name = lit ''Lamp'' \<or> name = lit ''Pine Table'' then 1 else 0)"

definition demo_env :: "pystr collaborators" where
  "demo_env =
     \<lparr>driver_get = (\<lambda>w url. (url, if url = siteB then Some TimeoutException else None)),
      wait_until_body = (\<lambda>w. (w, None)),
      execute_script = (\<lambda>w. (w, Inr (if w = siteA then pageA else pageC))),
      classify_batch = (\<lambda>w batch. (w, Inr (map demo_label batch)))\<rparr>"

text \<open>The same, with a classifier whose forward pass raises an error of its own library.\<close>

definition crashing_env :: "pystr collaborators" where
  "crashing_env = demo_env\<lparr>classify_batch := (\<lambda>w batch. (w, Inl OtherException))\<rparr>"

text \<open>
  A file system that holds nothing but the working directory \<^verbatim>\<open>/app\<close>, and the
  location of the output file \<^verbatim>\<open>furnitron/data/inference_output/out.txt\<close> in it.
\<close>

definition demo_state :: "pystr run_state" where
  "demo_state =
     \<lparr>world = [], log = [], cwd = [lit ''app''], dirs = {[lit ''app'']}, files = Map.empty,
      denied = {}\<rparr>"

definition demo_out :: location where
  "demo_out =
     [lit ''app'', lit ''furnitron'', lit ''data'', lit ''inference_output'', lit ''out.txt'']"

definition demo_out_name :: pystr where
  "demo_out_name = lit ''out.txt''"

definition demo_urls_file :: pystr where
  "demo_urls_file = lit ''urls.csv''"

text \<open>
  A file system with a list of three URLs in the working directory and an artifact left
  by an earlier run.
\<close>

definition demo_files_state :: "pystr run_state" where
  "demo_files_state =
     \<lparr>world = [], log = [], cwd = [lit ''app''],
      dirs = {[lit ''app''], [lit ''app'', lit ''furnitron''],
              [lit ''app'', lit ''furnitron'', lit ''data''],
              [lit ''app'', lit ''furnitron'', lit ''data'', lit ''inference_output'']},
      files = [[lit ''app'', lit ''urls.csv''] \<mapsto> lit ''siteA.com\<newline>siteB.com\<newline>siteC.com\<newline>'',
               demo_out \<mapsto> lit ''\<newline>URL: old.com\<newline>Old Sofa\<newline>''],
      denied = {}\<rparr>"

text \<open>
  A page whose only text node holds a line break, \<^verbatim>\<open>Oak\<close> and \<^verbatim>\<open>Chair\<close> on two
  lines of the markup, with a classifier that marks every candidate positive.
\<close>

definition pageW :: node where
  "pageW = Node 1 [] [Node 1 [] [Node 3 (lit '' Oak\<newline>  Chair '') []]]"

definition wrapped_env :: "pystr collaborators" where
  "wrapped_env =
     \<lparr>driver_get = (\<lambda>w url. (url, None)),
      wait_until_body = (\<lambda>w. (w, None)),
      execute_script = (\<lambda>w. (w, Inr pageW)),
      classify_batch = (\<lambda>w batch. (w, Inr (map (\<lambda>name. 1) batch)))\<rparr>"


section \<open>Facts about stripping\<close>

lemma all_dropWhile_iff: "(\<forall>x\<in>set (dropWhile P s). P x) \<longleftrightarrow> (\<forall>x\<in>set s. P x)"
proof
  assume a: "\<forall>x\<in>set (dropWhile P s). P x"
  have "dropWhile P s = []"
  proof (rule ccontr)
    assume "dropWhile P s \<noteq> []"
    then have "\<not> P (hd (dropWhile P s))" "hd (dropWhile P s) \<in> set (dropWhile P s)"
      by (simp_all add: hd_dropWhile)
    with a show False by blast
  qed
  then show "\<forall>x\<in>set s. P x" by (simp add: dropWhile_eq_Nil_conv)
next
  assume "\<forall>x\<in>set s. P x"
  then show "\<forall>x\<in>set (dropWhile P s). P x" by (meson set_dropWhileD)
qed

lemma dropWhile_all_append: "\<forall>x\<in>set a. P x \<Longrightarrow> dropWhile P (a @ s) = dropWhile P s"
  by (induction a) auto

lemma rstrip_with_Nil_iff: "rstrip_with P s = [] \<longleftrightarrow> (\<forall>x\<in>set s. P x)"
  by (simp add: rstrip_with_def dropWhile_eq_Nil_conv)

lemma strip_with_Nil_iff: "strip_with P s = [] \<longleftrightarrow> (\<forall>x\<in>set s. P x)"
  by (simp add: strip_with_def rstrip_with_Nil_iff all_dropWhile_iff)

lemma rstrip_with_keep:
  assumes "x \<noteq> []" "\<not> P (last x)"
  shows "rstrip_with P (x @ y) = x @ rstrip_with P y"
proof -
  have hd: "\<not> P (hd (rev x))" using assms by (simp add: hd_rev)
  have ne: "rev x \<noteq> []" using assms by simp
  have keep: "dropWhile P (rev x) = rev x" using hd ne by (cases "rev x") auto
  show ?thesis
  proof (cases "\<forall>c\<in>set y. P c")
    case True
    then have "dropWhile P (rev y @ rev x) = dropWhile P (rev x)"
      by (intro dropWhile_all_append) simp
    moreover have "rstrip_with P y = []" using True by (simp only: rstrip_with_Nil_iff)
    ultimately show ?thesis by (simp add: rstrip_with_def keep)
  next
    case False
    then have "dropWhile P (rev y @ rev x) = dropWhile P (rev y) @ rev x"
      by (auto simp: dropWhile_append1)
    then show ?thesis by (simp add: rstrip_with_def)
  qed
qed

lemma rstrip_with_clean:
  assumes "s = [] \<or> \<not> P (last s)"
  shows "rstrip_with P s = s"
proof (cases "s = []")
  case True
  then show ?thesis by (simp add: rstrip_with_def)
next
  case False
  with assms have "rstrip_with P (s @ []) = s @ rstrip_with P []"
    by (intro rstrip_with_keep) auto
  then show ?thesis by (simp add: rstrip_with_def)
qed

lemma strip_with_clean:
  assumes "s = [] \<or> (\<not> P (hd s) \<and> \<not> P (last s))"
  shows "strip_with P s = s"
proof (cases s)
  case Nil
  then show ?thesis by (simp add: strip_with_def rstrip_with_def)
next
  case (Cons a as)
  with assms have h: "\<not> P a" and l: "\<not> P (last s)" by auto
  from h Cons have "dropWhile P s = s" by simp
  moreover have "rstrip_with P s = s" using l by (simp add: rstrip_with_clean)
  ultimately show ?thesis by (simp add: strip_with_def)
qed

lemma strip_with_pad:
  assumes "\<forall>x\<in>set a. P x" "\<forall>x\<in>set b. P x"
  shows "strip_with P (a @ s @ b) = strip_with P s"
proof -
  have 1: "dropWhile P (a @ s @ b) = dropWhile P (s @ b)"
    using assms(1) by (rule dropWhile_all_append)
  show ?thesis
  proof (cases "\<forall>x\<in>set s. P x")
    case True
    then have "\<forall>x\<in>set (a @ s @ b). P x" using assms by auto
    then have "strip_with P (a @ s @ b) = []" by (simp only: strip_with_Nil_iff)
    moreover have "strip_with P s = []" using True by (simp only: strip_with_Nil_iff)
    ultimately show ?thesis by simp
  next
    case False
    then have "dropWhile P (s @ b) = dropWhile P s @ b"
      by (auto simp: dropWhile_append1)
    then have "rev (dropWhile P (a @ s @ b)) = rev b @ rev (dropWhile P s)"
      using 1 by simp
    moreover have "\<forall>x\<in>set (rev b). P x" using assms(2) by simp
    ultimately show ?thesis
      by (simp add: strip_with_def rstrip_with_def dropWhile_all_append)
  qed
qed

lemma strip_with_ends:
  assumes "strip_with P s \<noteq> []"
  shows "\<not> P (hd (strip_with P s)) \<and> \<not> P (last (strip_with P s))"
proof -
  let ?t = "dropWhile P s"
  let ?u = "dropWhile P (rev ?t)"
  from assms have u: "?u \<noteq> []" by (simp add: strip_with_def rstrip_with_def)
  have t: "?t \<noteq> []"
  proof
    assume "?t = []"
    then have "?u = []" by (simp only: rev.simps dropWhile.simps)
    with u show False by blast
  qed
  have l: "\<not> P (hd ?u)" using u by (rule hd_dropWhile)
  have ht: "\<not> P (hd ?t)" using t by (rule hd_dropWhile)
  have "rev ?t = takeWhile P (rev ?t) @ ?u" by simp
  then have "last ?u = last (rev ?t)" using u by (metis last_appendR)
  then have "last ?u = hd ?t" using t by (simp add: last_rev)
  with ht l u show ?thesis by (simp add: strip_with_def rstrip_with_def hd_rev last_rev)
qed

lemma strip_with_idem: "strip_with P (strip_with P s) = strip_with P s"
  using strip_with_ends[of P s] by (intro strip_with_clean) auto

text \<open>A string is its stripped form between two runs of the class.\<close>

lemma strip_with_decomp:
  "\<exists>a b. s = a @ strip_with P s @ b \<and> (\<forall>x\<in>set a. P x) \<and> (\<forall>x\<in>set b. P x)"
proof -
  let ?a = "takeWhile P s"
  let ?t = "dropWhile P s"
  let ?b = "rev (takeWhile P (rev ?t))"
  have "rev ?t = takeWhile P (rev ?t) @ dropWhile P (rev ?t)" by simp
  then have "?t = rev (dropWhile P (rev ?t)) @ ?b"
    by (metis rev_append rev_rev_ident)
  then have "s = ?a @ strip_with P s @ ?b"
    by (metis strip_with_def rstrip_with_def takeWhile_dropWhile_id)
  moreover have "\<forall>x\<in>set ?a. P x" by (meson set_takeWhileD)
  moreover have "\<forall>x\<in>set ?b. P x" by (metis set_rev set_takeWhileD)
  ultimately show ?thesis by blast
qed

section \<open>Facts about words\<close>

lemma length_split_ws:
  "length (split_ws w s) = count_word_starts (w \<noteq> []) s + (if w = [] then 0 else 1)"
  by (induction s arbitrary: w) auto

lemma length_py_split: "length (py_split s) = word_count s"
  by (simp add: py_split_def word_count_def length_split_ws)

lemma filter_text_iff: "filter_text t \<longleftrightarrow> py_strip t \<noteq> [] \<and> word_count t \<le> 10"
  by (simp add: filter_text_def conditions_def length_py_split)

section \<open>Facts about the Text Extractor\<close>

lemma foldl_append_concat: "foldl (\<lambda>acc x. acc @ f x) a xs = a @ concat (map f xs)"
  by (induction xs arbitrary: a) auto

lemma js_trim_Nil_iff: "js_trim s = [] \<longleftrightarrow> list_all js_isspace s"
  by (simp add: js_trim_def strip_with_Nil_iff list_all_iff)

lemma getAllLeafNodesText_preorder:
  "getAllLeafNodesText root =
     map (\<lambda>n. js_trim (textContent n)) (filter text_leaf (preorder root))"
proof (induction root)
  case (Node ty content children)
  show ?case
  proof (cases "children = []")
    case True
    then show ?thesis by (simp add: text_leaf_def js_trim_Nil_iff)
  next
    case False
    have IH: "concat (map getAllLeafNodesText children) =
          concat (map (\<lambda>c. map (\<lambda>n. js_trim (textContent n)) (filter text_leaf (preorder c))) children)"
      by (rule arg_cong[where f = concat]) (simp add: Node.IH)
    have "\<not> text_leaf (Node ty content children)"
      using False by (simp add: text_leaf_def)
    then show ?thesis
      using False by (simp add: foldl_append_concat map_concat filter_concat comp_def IH)
  qed
qed

lemma js_trim_not_blank: "js_trim s \<noteq> [] \<Longrightarrow> \<not> list_all js_isspace (js_trim s)"
  using strip_with_idem[of js_isspace s] js_trim_Nil_iff[of "js_trim s"]
  by (simp add: js_trim_def)


section \<open>Facts about the Batch Classifier\<close>

lemma concat_map_if_filter:
  "concat (map (\<lambda>i. if P i then [f i] else []) xs) = map f (filter P xs)"
  by (induction xs) auto

lemma select_positive_labels:
  "select_positive batch (map label batch) = Inr (filter (\<lambda>n. label n \<noteq> 0) batch)"
proof -
  have "[batch ! i. i \<leftarrow> [0..<length batch], map label batch ! i \<noteq> 0] =
        map (nth batch) (filter (\<lambda>i. label (batch ! i) \<noteq> 0) [0..<length batch])"
    unfolding concat_map_if_filter by (rule arg_cong[where f = "map (nth batch)"]) (rule filter_cong, auto)
  also have "\<dots> = filter (\<lambda>n. label n \<noteq> 0) (map (nth batch) [0..<length batch])"
    by (simp add: filter_map comp_def)
  finally show ?thesis by (simp add: select_positive_def map_nth)
qed

lemma classify_chunk_labels:
  "labels_items env label \<Longrightarrow>
   snd (classify_chunk env batch st) = Inr (filter (\<lambda>n. label n \<noteq> 0) batch)"
proof -
  assume a: "labels_items env label"
  obtain w r where c: "classify_batch env (world st) batch = (w, r)" by fastforce
  with a have "r = Inr (map label batch)"
    unfolding labels_items_def by (metis snd_conv)
  with c show ?thesis by (simp add: classify_chunk_def select_positive_labels)
qed

lemma batch_loop_labels:
  "labels_items env label \<Longrightarrow> 0 < B \<Longrightarrow>
   snd (batch_loop env B names i acc st) = Inr (acc @ filter (\<lambda>n. label n \<noteq> 0) (drop i names))"
proof (induction env B names i acc st rule: batch_loop.induct)
  case (1 env B names i product_names st)
  show ?case
  proof (cases "i < length names")
    case False
    then show ?thesis by (simp add: batch_loop.simps[of env B names i])
  next
    case True
    let ?batch = "take B (drop i names)"
    obtain st' r where c: "classify_chunk env ?batch st = (st', r)" by fastforce
    have r: "r = Inr (filter (\<lambda>n. label n \<noteq> 0) ?batch)"
      using classify_chunk_labels[OF "1.prems"(1), of ?batch st] c by simp
    have split: "drop i names = ?batch @ drop (i + B) names"
      by (metis add.commute append_take_drop_id drop_drop)
    have "snd (batch_loop env B names (i + B) (product_names @ filter (\<lambda>n. label n \<noteq> 0) ?batch) st') =
          Inr ((product_names @ filter (\<lambda>n. label n \<noteq> 0) ?batch) @
               filter (\<lambda>n. label n \<noteq> 0) (drop (i + B) names))"
      using "1.IH"[of st' r "filter (\<lambda>n. label n \<noteq> 0) ?batch"] True "1.prems" c r
      by simp
    moreover have "filter (\<lambda>n. label n \<noteq> 0) (drop i names) =
        filter (\<lambda>n. label n \<noteq> 0) ?batch @ filter (\<lambda>n. label n \<noteq> 0) (drop (i + B) names)"
      by (subst split) simp
    ultimately show ?thesis
      using True "1.prems"(2) c r by (simp add: batch_loop.simps[of env B names i])
  qed
qed

lemma classify_chunks_labels:
  "labels_items env label \<Longrightarrow>
   snd (classify_chunks env chunks acc st) = Inr (acc @ filter (\<lambda>n. label n \<noteq> 0) (concat chunks))"
proof (induction chunks arbitrary: acc st)
  case Nil
  then show ?case by simp
next
  case (Cons chunk chunks)
  obtain st' r where c: "classify_chunk env chunk st = (st', r)" by fastforce
  have r: "r = Inr (filter (\<lambda>n. label n \<noteq> 0) chunk)"
    using classify_chunk_labels[OF Cons.prems, of chunk st] c by simp
  show ?case using Cons.IH[OF Cons.prems] c r by simp
qed

lemma batch_loop_empty: "batch_loop env B [] i acc st = (st, Inr acc)"
  by (simp add: batch_loop.simps[of env B "[]"])

lemma demo_labels_items: "labels_items demo_env demo_label"
  by (simp add: labels_items_def demo_env_def)

section \<open>Facts about the log and the files\<close>

lemma processed_urls_append:
  "processed_urls (xs @ ys) = processed_urls xs @ processed_urls ys"
  by (induction xs rule: processed_urls.induct) auto

lemma file_write_content [simp]:
  "file_content (file_write path d st) path = file_content st path @ d"
  by (simp add: file_write_def file_content_def split: option.splits)

lemma file_write_other [simp]: "p \<noteq> path \<Longrightarrow> files (file_write path d st) p = files st p"
  by (simp add: file_write_def)

lemma file_write_some [simp]: "files (file_write path d st) path \<noteq> None"
  by (simp add: file_write_def)

lemma file_write_log [simp]: "log (file_write path d st) = log st"
  by (simp add: file_write_def)

lemma file_writelines_content [simp]:
  "file_content (file_writelines path ls st) path = file_content st path @ concat ls"
  by (induction ls arbitrary: st) auto

lemma file_writelines_other [simp]:
  "p \<noteq> path \<Longrightarrow> files (file_writelines path ls st) p = files st p"
  by (induction ls arbitrary: st) auto

lemma file_writelines_some:
  "files st path \<noteq> None \<Longrightarrow> files (file_writelines path ls st) path \<noteq> None"
proof (induction ls arbitrary: st)
  case Nil
  then show ?case by simp
next
  case (Cons l ls)
  have "files (file_write path l st) path \<noteq> None" by (rule file_write_some)
  then have "files (file_writelines path ls (file_write path l st)) path \<noteq> None"
    by (rule Cons.IH)
  then show ?case by simp
qed

lemma file_writelines_log [simp]: "log (file_writelines path ls st) = log st"
  by (induction ls arbitrary: st) auto

lemma logging_simps [simp]:
  "log (logging entry st) = log st @ [entry]"
  "files (logging entry st) = files st"
  "world (logging entry st) = world st"
  "file_content (logging entry st) path = file_content st path"
  by (simp_all add: logging_def file_content_def)

lemma batch_loop_stop:
  "length names \<le> i \<or> B = 0 \<Longrightarrow> batch_loop env B names i acc st = (st, Inr acc)"
  by (subst batch_loop.simps) auto

lemma batch_loop_step:
  "i < length names \<Longrightarrow> 0 < B \<Longrightarrow>
   batch_loop env B names i acc st =
     (case classify_chunk env (take B (drop i names)) st of
        (st', Inl e) \<Rightarrow> (st', Inl e)
      | (st', Inr positives) \<Rightarrow> batch_loop env B names (i + B) (acc @ positives) st')"
  by (subst batch_loop.simps) simp

text \<open>The Page Scraper's steps leave the log and the files alone.\<close>

lemma classify_chunk_frame:
  "log (fst (classify_chunk env batch st)) = log st \<and>
   files (fst (classify_chunk env batch st)) = files st"
  by (simp add: classify_chunk_def split: prod.splits sum.splits)

lemma batch_loop_frame:
  "log (fst (batch_loop env B names i acc st)) = log st \<and>
   files (fst (batch_loop env B names i acc st)) = files st"
proof (induction env B names i acc st rule: batch_loop.induct)
  case (1 env B names i product_names st)
  show ?case
  proof (cases "i < length names \<and> 0 < B")
    case False
    then have "length names \<le> i \<or> B = 0" by auto
    then show ?thesis by (simp add: batch_loop_stop)
  next
    case True
    obtain st' r where c: "classify_chunk env (take B (drop i names)) st = (st', r)"
      by fastforce
    have f: "log st' = log st \<and> files st' = files st"
      using classify_chunk_frame[of env "take B (drop i names)" st] c by simp
    show ?thesis
    proof (cases r)
      case (Inl e)
      with True c f show ?thesis by (simp add: batch_loop_step)
    next
      case (Inr positives)
      with "1.IH"[of st' r positives] True c f show ?thesis
        by (simp add: batch_loop_step)
    qed
  qed
qed

lemma get_all_leaf_nodes_text_frame:
  "log (fst (get_all_leaf_nodes_text env st)) = log st \<and>
   files (fst (get_all_leaf_nodes_text env st)) = files st"
  by (simp add: get_all_leaf_nodes_text_def split: prod.splits sum.splits)

lemma scrape_try_frame:
  "log (fst (scrape_try env url st)) = log st \<and> files (fst (scrape_try env url st)) = files st"
proof -
  obtain w1 r1 where g: "driver_get env (world st) url = (w1, r1)" by fastforce
  obtain w2 r2 where w: "wait_until_body env w1 = (w2, r2)" by fastforce
  obtain st3 r3 where x: "get_all_leaf_nodes_text env (st\<lparr>world := w2\<rparr>) = (st3, r3)"
    by fastforce
  have f3: "log st3 = log st \<and> files st3 = files st"
    using get_all_leaf_nodes_text_frame[of env "st\<lparr>world := w2\<rparr>"] x by simp
  show ?thesis
    using g w x f3 batch_loop_frame[of env BATCH_SIZE _ 0 "[]" st3]
    by (simp add: scrape_try_def model_inference_def split: option.splits sum.splits)
qed

lemma scrape_product_names_frame:
  "files (fst (scrape_product_names env url st)) = files st \<and>
   processed_urls (log (fst (scrape_product_names env url st))) =
     processed_urls (log st) @ [url]"
proof -
  let ?st0 = "logging (Info_Processing_URL url) st"
  obtain st' r where t: "scrape_try env url ?st0 = (st', r)" by fastforce
  have f: "log st' = log st @ [Info_Processing_URL url] \<and> files st' = files st"
    using scrape_try_frame[of env url ?st0] t by simp
  show ?thesis
    using t f
    by (simp add: scrape_product_names_def processed_urls_append split: sum.splits)
qed

lemma scrape_product_names_raises:
  "snd (scrape_product_names env url st) = Inl e \<Longrightarrow> \<not> is_WebDriverException e"
  by (auto simp: scrape_product_names_def split: prod.splits sum.splits if_splits)

section \<open>Facts about the loop over the URLs\<close>

lemma process_url_facts:
  "processed_urls (log (fst (process_url env path url st))) = processed_urls (log st) @ [url] \<and>
   file_content (fst (process_url env path url st)) path =
     file_content st path @ contribution (url, snd (scrape_product_names env url st)) \<and>
   (\<forall>p. p \<noteq> path \<longrightarrow> files (fst (process_url env path url st)) p = files st p) \<and>
   (files st path \<noteq> None \<longrightarrow> files (fst (process_url env path url st)) path \<noteq> None)"
proof -
  obtain st' r where s: "scrape_product_names env url st = (st', r)" by fastforce
  have f: "files st' = files st"
    "processed_urls (log st') = processed_urls (log st) @ [url]"
    using scrape_product_names_frame[of env url st] s by simp_all
  then have fc: "file_content st' = file_content st"
    by (simp add: file_content_def fun_eq_iff)
  show ?thesis
  proof (cases r)
    case (Inl e)
    with s f fc show ?thesis
      by (simp add: process_url_def processed_urls_append)
  next
    case (Inr product_names)
    show ?thesis
    proof (cases product_names)
      case None
      with Inr s f fc show ?thesis by (simp add: process_url_def)
    next
      case (Some names)
      have tl: "map text_line names = map (\<lambda>name. name @ [10]) names"
        by (simp add: text_line_def)
      have "files (file_writelines path ls (file_write path d st')) path \<noteq> None" for ls d
        by (intro file_writelines_some file_write_some)
      then have "\<exists>y. files (file_writelines path ls (file_write path d st')) path = Some y" for ls d
        by simp
      with Some Inr s f fc show ?thesis
        by (simp add: process_url_def url_block_def url_marker_line_def text_line_def tl)
    qed
  qed
qed

lemma process_url_raises:
  "snd (process_url env path url st) = Some e \<Longrightarrow> \<not> is_WebDriverException e"
  by (auto simp: process_url_def split: prod.splits sum.splits option.splits if_splits)

lemma url_loop_facts:
  "processed_urls (log (fst (url_loop env path urls st))) =
     processed_urls (log st) @ map fst (run_outcomes env path urls st) \<and>
   file_content (fst (url_loop env path urls st)) path =
     file_content st path @ concat (map contribution (run_outcomes env path urls st)) \<and>
   (\<forall>p. p \<noteq> path \<longrightarrow> files (fst (url_loop env path urls st)) p = files st p) \<and>
   (files st path \<noteq> None \<longrightarrow> files (fst (url_loop env path urls st)) path \<noteq> None)"
proof (induction urls arbitrary: st)
  case Nil
  then show ?case by simp
next
  case (Cons url urls)
  obtain st' r where p: "process_url env path url st = (st', r)" by fastforce
  note step = process_url_facts[of env path url st, unfolded p fst_conv]
  show ?case
  proof (cases r)
    case None
    with p step Cons.IH[of st'] show ?thesis by simp
  next
    case (Some e)
    with p step show ?thesis by simp
  qed
qed

lemma url_loop_raises:
  "snd (url_loop env path urls st) = Some e \<Longrightarrow> \<not> is_WebDriverException e"
proof (induction urls arbitrary: st)
  case Nil
  then show ?case by simp
next
  case (Cons url urls)
  obtain st' r where p: "process_url env path url st = (st', r)" by fastforce
  show ?case
  proof (cases r)
    case None
    with p Cons show ?thesis by simp
  next
    case (Some e')
    with p Cons.prems process_url_raises[of env path url st e'] show ?thesis by simp
  qed
qed

lemma url_loop_completes:
  "snd (url_loop env path urls st) = None \<Longrightarrow> map fst (run_outcomes env path urls st) = urls"
proof (induction urls arbitrary: st)
  case Nil
  then show ?case by simp
next
  case (Cons url urls)
  obtain st' r where p: "process_url env path url st = (st', r)" by fastforce
  with Cons show ?case by (cases r) auto
qed

section \<open>Facts about the partition into chunks\<close>

lemma chunks_of_Nil [simp]: "chunks_of B [] = []"
  by (subst chunks_of.simps) simp

lemma chunks_of_step:
  "xs \<noteq> [] \<Longrightarrow> 0 < B \<Longrightarrow> chunks_of B xs = take B xs # chunks_of B (drop B xs)"
  by (subst chunks_of.simps) simp

lemma chunks_of_partition:
  "0 < B \<Longrightarrow> concat (chunks_of B xs) = xs \<and> (\<forall>c\<in>set (chunks_of B xs). c \<noteq> [] \<and> length c \<le> B)"
proof (induction B xs rule: chunks_of.induct)
  case (1 B xs)
  show ?case
  proof (cases "xs = []")
    case True
    then show ?thesis by simp
  next
    case False
    have step: "chunks_of B xs = take B xs # chunks_of B (drop B xs)"
      using False "1.prems" by (rule chunks_of_step)
    have ih: "concat (chunks_of B (drop B xs)) = drop B xs \<and>
        (\<forall>c\<in>set (chunks_of B (drop B xs)). c \<noteq> [] \<and> length c \<le> B)"
      using False "1.prems" by (intro "1.IH") auto
    have "take B xs \<noteq> []" using False "1.prems" by simp
    with ih show ?thesis unfolding step by simp
  qed
qed


lemma batch_loop_chunks_of:
  "0 < B \<Longrightarrow>
   batch_loop env B names i acc st = classify_chunks env (chunks_of B (drop i names)) acc st"
proof (induction env B names i acc st rule: batch_loop.induct)
  case (1 env B names i product_names st)
  show ?case
  proof (cases "i < length names")
    case False
    then show ?thesis by (simp add: batch_loop_stop)
  next
    case True
    then have ne: "drop i names \<noteq> []" by simp
    have "drop B (drop i names) = drop (i + B) names" by (simp add: add.commute)
    then have ch: "chunks_of B (drop i names) =
        take B (drop i names) # chunks_of B (drop (i + B) names)"
      using chunks_of_step[OF ne "1.prems"] by (simp only:)
    obtain st' r where c: "classify_chunk env (take B (drop i names)) st = (st', r)"
      by fastforce
    have bl: "batch_loop env B names i product_names st =
        (case classify_chunk env (take B (drop i names)) st of
           (st', Inl e) \<Rightarrow> (st', Inl e)
         | (st', Inr positives) \<Rightarrow>
             batch_loop env B names (i + B) (product_names @ positives) st')"
      using True "1.prems" by (rule batch_loop_step)
    show ?thesis
    proof (cases r)
      case (Inl e)
      then show ?thesis unfolding bl ch by (simp add: c)
    next
      case (Inr positives)
      have "batch_loop env B names (i + B) (product_names @ positives) st' =
          classify_chunks env (chunks_of B (drop (i + B) names)) (product_names @ positives) st'"
        using True "1.prems" c Inr by (intro "1.IH"[of st' r positives]) auto
      then show ?thesis unfolding bl ch by (simp add: c Inr)
    qed
  qed
qed

lemma run_outcomes_prefix: "prefix (map fst (run_outcomes env path urls st)) urls"
proof (induction urls arbitrary: st)
  case Nil
  then show ?case by simp
next
  case (Cons url urls)
  obtain st' r where p: "process_url env path url st = (st', r)" by fastforce
  with Cons show ?case by (cases r) auto
qed

section \<open>Facts about collaborators that raise Selenium's exceptions only\<close>

lemma classify_chunk_raises:
  assumes "raises_only_WebDriverException env" "snd (classify_chunk env batch st) = Inl e"
  shows "is_WebDriverException e"
proof -
  obtain w r where c: "classify_batch env (world st) batch = (w, r)" by fastforce
  show ?thesis
  proof (cases r)
    case (Inl e')
    with c assms(2) have "e' = e" by (simp add: classify_chunk_def)
    with Inl c assms(1) show ?thesis
      unfolding raises_only_WebDriverException_def by (metis snd_conv)
  next
    case (Inr l)
    with c assms(1) have "length batch \<le> length l"
      unfolding raises_only_WebDriverException_def by (metis snd_conv)
    with Inr c assms(2) show ?thesis
      by (simp add: classify_chunk_def select_positive_def)
  qed
qed

lemma batch_loop_raises:
  "raises_only_WebDriverException env \<Longrightarrow> snd (batch_loop env B names i acc st) = Inl e \<Longrightarrow>
   is_WebDriverException e"
proof (induction env B names i acc st rule: batch_loop.induct)
  case (1 env B names i product_names st)
  show ?case
  proof (cases "i < length names \<and> 0 < B")
    case False
    then have "length names \<le> i \<or> B = 0" by auto
    with "1.prems"(2) show ?thesis by (simp add: batch_loop_stop)
  next
    case True
    obtain st' r where c: "classify_chunk env (take B (drop i names)) st = (st', r)"
      by fastforce
    show ?thesis
    proof (cases r)
      case (Inl e')
      with True c "1.prems"(2) have "e' = e" by (simp add: batch_loop_step)
      with Inl c classify_chunk_raises[OF "1.prems"(1), of "take B (drop i names)" st e]
      show ?thesis by simp
    next
      case (Inr positives)
      with "1.IH"[of st' r positives] True c "1.prems" show ?thesis
        by (simp add: batch_loop_step)
    qed
  qed
qed

lemma scrape_try_raises:
  assumes "raises_only_WebDriverException env" "snd (scrape_try env url st) = Inl e"
  shows "is_WebDriverException e"
proof -
  obtain w1 r1 where g: "driver_get env (world st) url = (w1, r1)" by fastforce
  obtain w2 r2 where w: "wait_until_body env w1 = (w2, r2)" by fastforce
  obtain w3 r3 where x: "execute_script env w2 = (w3, r3)" by fastforce
  have 1: "r1 = Some e' \<Longrightarrow> is_WebDriverException e'" for e'
    using assms(1) g unfolding raises_only_WebDriverException_def by (metis snd_conv)
  have 2: "r2 = Some e' \<Longrightarrow> is_WebDriverException e'" for e'
    using assms(1) w unfolding raises_only_WebDriverException_def by (metis snd_conv)
  have 3: "r3 = Inl e' \<Longrightarrow> is_WebDriverException e'" for e'
    using assms(1) x unfolding raises_only_WebDriverException_def by (metis snd_conv)
  show ?thesis
  proof (cases r1)
    case (Some e1)
    with g assms(2) 1 show ?thesis by (simp add: scrape_try_def)
  next
    case None
    note r1 = this
    show ?thesis
    proof (cases r2)
      case (Some e2)
      with r1 g w assms(2) 2 show ?thesis by (simp add: scrape_try_def)
    next
      case None
      note r2 = this
      show ?thesis
      proof (cases r3)
        case (Inl e3)
        with r1 r2 g w x assms(2) 3 show ?thesis
          by (simp add: scrape_try_def get_all_leaf_nodes_text_def)
      next
        case (Inr body)
        with r1 r2 g w x assms(2) have
          "snd (model_inference env (get_candidate_names (getAllLeafNodesText body))
             (st\<lparr>world := w3\<rparr>)) = Inl e"
          by (simp add: scrape_try_def get_all_leaf_nodes_text_def)
        then show ?thesis
          using batch_loop_raises[OF assms(1)] by (simp add: model_inference_def)
      qed
    qed
  qed
qed

lemma scrape_product_names_returns:
  assumes "raises_only_WebDriverException env"
  shows "\<exists>r. snd (scrape_product_names env url st) = Inr r"
proof -
  let ?st0 = "logging (Info_Processing_URL url) st"
  obtain st' r where t: "scrape_try env url ?st0 = (st', r)" by fastforce
  show ?thesis
  proof (cases r)
    case (Inr names)
    with t show ?thesis by (simp add: scrape_product_names_def)
  next
    case (Inl e)
    with t scrape_try_raises[OF assms, of url ?st0 e] have "is_WebDriverException e" by simp
    with Inl t show ?thesis by (simp add: scrape_product_names_def)
  qed
qed

lemma process_url_continues:
  assumes "raises_only_WebDriverException env"
  shows "snd (process_url env path url st) = None"
proof -
  obtain st' r where s: "scrape_product_names env url st = (st', r)" by fastforce
  with scrape_product_names_returns[OF assms, of url st] obtain x where "r = Inr x" by auto
  with s show ?thesis by (simp add: process_url_def split: option.splits)
qed

lemma url_loop_continues:
  "raises_only_WebDriverException env \<Longrightarrow> snd (url_loop env path urls st) = None"
proof (induction urls arbitrary: st)
  case Nil
  then show ?case by simp
next
  case (Cons url urls)
  obtain st' r where p: "process_url env path url st = (st', r)" by fastforce
  with process_url_continues[OF Cons.prems, of path url st] have "r = None" by simp
  with p Cons show ?case by simp
qed

lemma scrape_try_browser_failure:
  assumes "browser_failure env (world st) url = Some e"
  shows "snd (scrape_try env url st) = Inl e \<and> log (fst (scrape_try env url st)) = log st"
  using assms
  by (auto simp: browser_failure_def scrape_try_def get_all_leaf_nodes_text_def
      split: prod.splits option.splits sum.splits)

section \<open>The scenario, evaluated\<close>

lemmas strip_defs = py_strip_def js_trim_def strip_with_def rstrip_with_def py_isspace_def
  js_isspace_def

lemmas scenario_defs = siteA_def siteB_def siteC_def pageA_def pageC_def demo_label_def
  demo_env_def crashing_env_def demo_state_def demo_out_def

lemmas scrape_defs = scrape_product_names_def scrape_try_def get_all_leaf_nodes_text_def
  get_candidate_names_def filter_text_def conditions_def py_split_def TEXT_NODE_def
  model_inference_def BATCH_SIZE_def batch_loop_step batch_loop_stop classify_chunk_def
  select_positive_labels logging_def

lemma demo_scrape_A:
  "scrape_product_names demo_env siteA st =
     (st\<lparr>world := siteA, log := log st @ [Info_Processing_URL siteA]\<rparr>,
      Inr (Some [lit ''Oak Chair'', lit ''Lamp'']))"
  by (simp add: scrape_defs scenario_defs strip_defs)

lemma demo_scrape_B:
  "scrape_product_names demo_env siteB st =
     (st\<lparr>world := siteB,
         log := log st @ [Info_Processing_URL siteB, Error_encountered TimeoutException]\<rparr>,
      Inr None)"
  by (simp add: scrape_defs scenario_defs strip_defs)

lemma demo_scrape_C:
  "scrape_product_names demo_env siteC st =
     (st\<lparr>world := siteC, log := log st @ [Info_Processing_URL siteC]\<rparr>,
      Inr (Some [lit ''Pine Table'']))"
  by (simp add: scrape_defs scenario_defs strip_defs)

lemma crashing_scrape_A:
  "scrape_product_names crashing_env siteA st =
     (st\<lparr>world := siteA, log := log st @ [Info_Processing_URL siteA]\<rparr>, Inl OtherException)"
  by (simp add: scrape_defs scenario_defs strip_defs)

lemma demo_raises_only: "raises_only_WebDriverException demo_env"
  by (simp add: raises_only_WebDriverException_def demo_env_def)

lemma demo_run_outcomes:
  "run_outcomes demo_env path [siteA, siteB, siteC] st =
     [(siteA, Inr (Some [lit ''Oak Chair'', lit ''Lamp''])), (siteB, Inr None),
      (siteC, Inr (Some [lit ''Pine Table'']))]"
  by (simp add: process_url_def demo_scrape_A demo_scrape_B demo_scrape_C)

lemma crashing_url_loop:
  "url_loop crashing_env path [siteA, siteB] st =
     (st\<lparr>world := siteA, log := log st @ [Info_Processing_URL siteA]\<rparr>, Some OtherException)"
  by (simp add: process_url_def crashing_scrape_A)

lemma demo_url_loop:
  "url_loop demo_env path [siteA, siteB, siteC] st =
     (file_writelines path [lit ''Pine Table\<newline>'']
        (file_write path (lit ''\<newline>URL: '' @ siteC @ lit ''\<newline>'')
          ((file_writelines path [lit ''Oak Chair\<newline>'', lit ''Lamp\<newline>'']
             (file_write path (lit ''\<newline>URL: '' @ siteA @ lit ''\<newline>'')
               (st\<lparr>world := siteA, log := log st @ [Info_Processing_URL siteA]\<rparr>)))
           \<lparr>world := siteC,
             log := log st @ [Info_Processing_URL siteA, Info_Processing_URL siteB,
               Error_encountered TimeoutException, Info_Processing_URL siteC]\<rparr>)),
      None)"
  by (simp add: process_url_def demo_scrape_A demo_scrape_B demo_scrape_C file_write_def)

section \<open>Facts about reading lines\<close>

lemma universal_newlines_id: "13 \<notin> set s \<Longrightarrow> universal_newlines s = s"
  by (induction s rule: universal_newlines.induct) auto

lemma lines_from_line:
  "10 \<notin> set s \<Longrightarrow> lines_from cur (s @ 10 # rest) = (cur @ s @ [10]) # lines_from [] rest"
  by (induction s arbitrary: cur) auto

lemma lines_from_text_lines:
  "\<forall>l\<in>set ls. 10 \<notin> set l \<Longrightarrow> lines_from [] (concat (map text_line ls)) = map text_line ls"
proof (induction ls)
  case Nil
  then show ?case by simp
next
  case (Cons l ls)
  then have "lines_from [] (l @ 10 # concat (map text_line ls)) =
             ([] @ l @ [10]) # lines_from [] (concat (map text_line ls))"
    by (intro lines_from_line) simp
  with Cons show ?case by (simp add: text_line_def[of l])
qed

lemma file_lines_text_lines:
  assumes "\<forall>l\<in>set ls. one_line l"
  shows "file_lines (concat (map text_line ls)) = map text_line ls"
proof -
  have "13 \<notin> set (concat (map text_line ls))"
    using assms by (auto simp: one_line_def text_line_def)
  then have "universal_newlines (concat (map text_line ls)) = concat (map text_line ls)"
    by (rule universal_newlines_id)
  moreover have "\<forall>l\<in>set ls. 10 \<notin> set l" using assms by (simp add: one_line_def)
  ultimately show ?thesis by (simp add: file_lines_def lines_from_text_lines)
qed

lemma one_line_marker_line: "one_line u \<Longrightarrow> one_line (url_marker_line u)"
  by (simp add: one_line_def url_marker_line_def)

section \<open>Facts about cutting at a separator\<close>

lemma split_sep_Nil [simp]: "split_sep sep cur [] = [cur]"
  by (subst split_sep.simps) simp

lemma split_sep_match:
  "sep \<noteq> [] \<Longrightarrow> split_sep sep cur (sep @ s) = cur # split_sep sep [] s"
  by (subst split_sep.simps) auto

lemma split_sep_none: "\<not> sublist sep s \<Longrightarrow> split_sep sep cur s = [cur @ s]"
proof (induction sep cur s rule: split_sep.induct)
  case (1 sep cur s)
  show ?case
  proof (cases "s = []")
    case True
    then show ?thesis by simp
  next
    case False
    then obtain c cs where s: "s = c # cs" by (cases s) auto
    have nomatch: "\<not> (sep \<noteq> [] \<and> take (length sep) s = sep)"
    proof
      assume "sep \<noteq> [] \<and> take (length sep) s = sep"
      then have "s = sep @ drop (length sep) s" by (metis append_take_drop_id)
      then have "sublist sep s" by (metis sublist_appendI sublist_order.order_refl prefix_imp_sublist prefixI)
      with "1.prems" show False by simp
    qed
    have "\<not> sublist sep cs" using "1.prems" s by (auto simp: sublist_Cons_right)
    then have "split_sep sep (cur @ [c]) cs = [(cur @ [c]) @ cs]"
      using "1.IH"(2)[OF False nomatch] s by simp
    then show ?thesis
      using False nomatch s by (subst split_sep.simps) simp
  qed
qed

lemma sublist_drop_class:
  assumes "sublist m (w @ s)" "\<forall>c\<in>set w. P c" "m \<noteq> []" "\<not> P (hd m)"
  shows "sublist m s"
  using assms
proof (induction w)
  case Nil
  then show ?case by simp
next
  case (Cons c w)
  have "\<not> prefix m (c # w @ s)"
  proof
    assume "prefix m (c # w @ s)"
    with Cons.prems(3) have "hd m = c" by (cases m) auto
    with Cons.prems(2,4) show False by simp
  qed
  with Cons.prems(1) have "sublist m (w @ s)" by (simp add: sublist_Cons_right)
  with Cons show ?case by simp
qed

section \<open>Facts about the Search Indexer\<close>

lemma URL_marker_chars [simp]:
  "URL_marker \<noteq> []" "\<not> py_isspace (hd URL_marker)" "\<not> py_isspace (last URL_marker)"
  "length URL_marker = 4"
  by (simp_all add: URL_marker_def py_isspace_def)

lemma marker_line_eq: "text_line (url_marker_line u) = URL_marker @ 32 # u @ [10]"
  by (simp add: text_line_def url_marker_line_def URL_marker_def)

lemma py_strip_marker: "py_strip (URL_marker @ y) = URL_marker @ rstrip_with py_isspace y"
proof -
  have "dropWhile P (x @ y) = x @ y" if "x \<noteq> []" "\<not> P (hd x)" for P and x y :: pystr
    using that by (cases x) auto
  then have "dropWhile py_isspace (URL_marker @ y) = URL_marker @ y"
    by simp
  then show ?thesis
    by (simp add: py_strip_def strip_with_def rstrip_with_keep)
qed

lemma split_sep_nonempty: "split_sep sep cur s \<noteq> []"
proof (induction sep cur s rule: split_sep.induct)
  case (1 sep cur s)
  show ?case
    using 1 by (subst split_sep.simps) auto
qed

text \<open>What is left of a marker line behind the marker, and what the cursor becomes.\<close>

lemma marker_rest:
  assumes "\<not> sublist URL_marker u"
  defines "r \<equiv> rstrip_with py_isspace (32 # u @ [10])"
  shows "\<not> sublist URL_marker r \<and> py_strip r = py_strip u"
proof -
  obtain a b where u: "u = a @ py_strip u @ b"
    and a: "\<forall>x\<in>set a. py_isspace x" and b: "\<forall>x\<in>set b. py_isspace x"
    using strip_with_decomp[of u py_isspace] unfolding py_strip_def by blast
  have sp: "py_isspace 32" "py_isspace 10" by (simp_all add: py_isspace_def)
  show ?thesis
  proof (cases "py_strip u = []")
    case True
    then have "\<forall>x\<in>set (32 # u @ [10]). py_isspace x"
      using sp by (simp add: py_strip_def strip_with_Nil_iff)
    then have "r = []" unfolding r_def by (simp only: rstrip_with_Nil_iff)
    with True show ?thesis by (simp add: py_strip_def strip_with_def rstrip_with_def)
  next
    case False
    let ?m = "py_strip u"
    have last: "\<not> py_isspace (last ?m)"
      using False strip_with_ends[of py_isspace u] by (simp add: py_strip_def)
    have e: "32 # u @ [10] = ((32 # a) @ ?m) @ (b @ [10])" using u by simp
    have "r = rstrip_with py_isspace (((32 # a) @ ?m) @ (b @ [10]))"
      unfolding r_def by (simp only: e)
    also have "\<dots> = ((32 # a) @ ?m) @ rstrip_with py_isspace (b @ [10])"
      using False last by (intro rstrip_with_keep) auto
    also have "rstrip_with py_isspace (b @ [10]) = []"
      using b sp by (simp add: rstrip_with_Nil_iff)
    finally have r: "r = (32 # a) @ ?m" by simp
    have "\<not> sublist URL_marker r"
    proof
      assume "sublist URL_marker r"
      then have "sublist URL_marker ?m"
        unfolding r using a sp by (intro sublist_drop_class[of URL_marker "32 # a" ?m py_isspace]) auto
      then have "sublist URL_marker (a @ ?m @ b)"
        by (metis sublist_appendI sublist_order.order_trans)
      with u assms(1) show False by simp
    qed
    moreover have "py_strip r = ?m"
    proof -
      have "strip_with py_isspace ((32 # a) @ ?m @ []) = strip_with py_isspace ?m"
        using a sp by (intro strip_with_pad) auto
      then show ?thesis by (simp add: r py_strip_def strip_with_idem)
    qed
    ultimately show ?thesis by simp
  qed
qed

lemma index_line_marker:
  assumes "\<not> sublist URL_marker u"
  shows "index_line (text_line (url_marker_line u)) s = Inr (py_strip u, snd s)"
proof -
  let ?r = "rstrip_with py_isspace (32 # u @ [10])"
  have line: "py_strip (text_line (url_marker_line u)) = URL_marker @ ?r"
    by (simp only: marker_line_eq py_strip_marker)
  have r: "\<not> sublist URL_marker ?r" "py_strip ?r = py_strip u"
    using marker_rest[OF assms] by simp_all
  have "py_split_sep (URL_marker @ ?r) URL_marker = [[], ?r]"
    using r(1) by (simp add: py_split_sep_def split_sep_match split_sep_none)
  then show ?thesis
    using r(2)
    by (simp only: index_line_def line Let_def) (simp add: py_startswith_def py_index_def)
qed

lemma index_line_content:
  assumes "\<not> py_startswith (py_strip l) URL_marker"
  shows "index_line l (cur, docs) =
           Inr (cur, if py_strip l = [] then docs else docs @ [Document cur (py_strip l)])"
  using assms by (simp add: index_line_def)

lemma index_lines_content:
  "\<forall>l\<in>set body. \<not> py_startswith (py_strip l) URL_marker \<Longrightarrow>
   index_lines body (cur, docs) =
     Inr (cur, docs @ map (\<lambda>l. Document cur (py_strip l)) (filter (\<lambda>l. py_strip l \<noteq> []) body))"
  by (induction body arbitrary: docs) (simp_all add: index_line_content)

lemma index_lines_append:
  "index_lines (xs @ ys) s =
     (case index_lines xs s of Inl e \<Rightarrow> Inl e | Inr s' \<Rightarrow> index_lines ys s')"
  by (induction xs arbitrary: s) (auto split: sum.splits)

lemma index_line_total: "\<exists>cur' more. index_line l (cur, docs) = Inr (cur', docs @ more)"
proof (cases "py_startswith (py_strip l) URL_marker")
  case True
  then have "py_strip l = URL_marker @ drop 4 (py_strip l)"
    by (metis URL_marker_chars(4) append_take_drop_id py_startswith_def)
  then have "py_split_sep (py_strip l) URL_marker =
      [] # split_sep URL_marker [] (drop 4 (py_strip l))"
    by (metis URL_marker_chars(1) py_split_sep_def split_sep_match)
  moreover obtain p ps where "split_sep URL_marker [] (drop 4 (py_strip l)) = p # ps"
    using split_sep_nonempty by (metis list.exhaust)
  ultimately show ?thesis using True by (simp add: index_line_def py_index_def)
next
  case False
  then show ?thesis by (simp add: index_line_content)
qed

lemma index_lines_total: "\<exists>cur' more. index_lines ls (cur, docs) = Inr (cur', docs @ more)"
proof (induction ls arbitrary: cur docs)
  case Nil
  then show ?case by simp
next
  case (Cons l ls)
  obtain c1 m1 where 1: "index_line l (cur, docs) = Inr (c1, docs @ m1)"
    using index_line_total by blast
  obtain c2 m2 where 2: "index_lines ls (c1, docs @ m1) = Inr (c2, (docs @ m1) @ m2)"
    using Cons.IH by blast
  from 1 2 have "index_lines (l # ls) (cur, docs) = Inr (c2, docs @ (m1 @ m2))" by simp
  then show ?case by blast
qed

lemma plain_name_line:
  assumes "plain_name n"
  shows "index_line (text_line n) (cur, docs) = Inr (cur, docs @ [Document cur n])"
proof -
  have "strip_with py_isspace ([] @ n @ [10]) = strip_with py_isspace n"
    by (intro strip_with_pad) (simp_all add: py_isspace_def)
  then have "py_strip (text_line n) = n"
    using assms by (simp add: plain_name_def py_strip_def text_line_def)
  then show ?thesis
    using assms by (simp add: index_line_content plain_name_def)
qed

lemma blank_line: "index_line (text_line []) s = Inr s"
  by (simp add: index_line_def text_line_def py_strip_def strip_with_def rstrip_with_def
      py_isspace_def py_startswith_def URL_marker_def)

lemma plain_url_line:
  "plain_url u \<Longrightarrow> index_line (text_line (url_marker_line u)) (cur, docs) = Inr (u, docs)"
  by (simp add: plain_url_def index_line_marker)

lemma index_line_buffer:
  "index_line l (cur, docs) =
     (case index_line l (cur, []) of Inl e \<Rightarrow> Inl e | Inr (c, m) \<Rightarrow> Inr (c, docs @ m))"
  by (simp add: index_line_def Let_def split: sum.splits)

lemma index_lines_buffer:
  "index_lines ls (cur, docs) =
     (case index_lines ls (cur, []) of Inl e \<Rightarrow> Inl e | Inr (c, m) \<Rightarrow> Inr (c, docs @ m))"
proof (induction ls arbitrary: cur docs)
  case Nil
  then show ?case by simp
next
  case (Cons l ls)
  obtain c1 m1 where 1: "index_line l (cur, []) = Inr (c1, [] @ m1)"
    using index_line_total by blast
  then have 2: "index_line l (cur, docs) = Inr (c1, docs @ m1)"
    by (subst index_line_buffer) simp
  obtain c2 m2 where 3: "index_lines ls (c1, []) = Inr (c2, [] @ m2)"
    using index_lines_total by blast
  have "index_lines ls (c1, docs @ m1) = Inr (c2, (docs @ m1) @ m2)"
    using 3 by (subst Cons.IH) simp
  moreover have "index_lines ls (c1, m1) = Inr (c2, m1 @ m2)"
    using 3 by (subst Cons.IH) simp
  ultimately show ?case using 1 2 by simp
qed

lemma index_lines_from_empty:
  "\<exists>c more. index_lines ls (cur, []) = Inr (c, more) \<and>
     (\<forall>docs. index_lines ls (cur, docs) = Inr (c, docs @ more))"
proof -
  obtain c more where 1: "index_lines ls (cur, []) = Inr (c, [] @ more)"
    using index_lines_total by blast
  then have "index_lines ls (cur, docs) = Inr (c, docs @ more)" for docs
    by (subst index_lines_buffer) simp
  with 1 show ?thesis by auto
qed

section \<open>Facts about a URL whose page fails\<close>

lemma scrape_product_names_browser_failure:
  assumes "browser_failure env (world st) url = Some e" and "is_WebDriverException e"
  shows "snd (scrape_product_names env url st) = Inr None \<and>
         log (fst (scrape_product_names env url st)) =
           log st @ [Info_Processing_URL url, handler_entry url e] \<and>
         files (fst (scrape_product_names env url st)) = files st"
proof -
  let ?st0 = "logging (Info_Processing_URL url) st"
  obtain st' r where t: "scrape_try env url ?st0 = (st', r)" by fastforce
  have "browser_failure env (world ?st0) url = Some e" using assms(1) by simp
  from scrape_try_browser_failure[OF this] t
  have r: "r = Inl e" and l: "log st' = log st @ [Info_Processing_URL url]" by simp_all
  have f: "files st' = files st" using scrape_try_frame[of env url ?st0] t by simp
  show ?thesis
    using t r l f assms(2) by (simp add: scrape_product_names_def handler_entry_def)
qed

lemma process_url_browser_failure:
  assumes "browser_failure env (world st) url = Some e" and "is_WebDriverException e"
  shows "snd (process_url env path url st) = None \<and>
         log (fst (process_url env path url st)) =
           log st @ [Info_Processing_URL url, handler_entry url e] \<and>
         files (fst (process_url env path url st)) = files st"
proof -
  obtain st' r where s: "scrape_product_names env url st = (st', r)" by fastforce
  with scrape_product_names_browser_failure[OF assms] show ?thesis
    by (simp add: process_url_def)
qed

lemma browser_failure_raises:
  "raises_only_WebDriverException env \<Longrightarrow> browser_failure env w url = Some e \<Longrightarrow>
   is_WebDriverException e"
  unfolding raises_only_WebDriverException_def browser_failure_def
  by (auto split: prod.splits option.splits sum.splits) (metis snd_conv)+

lemma demo_browser_failure: "browser_failure demo_env w siteB = Some TimeoutException"
  by (simp add: browser_failure_def demo_env_def)

section \<open>Facts about the file system\<close>

lemma is_dir_files_update [simp]: "is_dir (st\<lparr>files := f\<rparr>) loc = is_dir st loc"
  by (simp add: is_dir_def)

lemma path_start_files_update [simp]: "path_start (st\<lparr>files := f\<rparr>) p = path_start st p"
  by (simp add: path_start_def)

lemma is_dir_mono: "dirs st \<subseteq> dirs st' \<Longrightarrow> is_dir st loc \<Longrightarrow> is_dir st' loc"
  by (auto simp: is_dir_def)

lemma mkdirs_frame:
  "world (fst (mkdirs cur names st)) = world st \<and>
   log (fst (mkdirs cur names st)) = log st \<and>
   cwd (fst (mkdirs cur names st)) = cwd st \<and>
   files (fst (mkdirs cur names st)) = files st \<and>
   denied (fst (mkdirs cur names st)) = denied st \<and>
   dirs st \<subseteq> dirs (fst (mkdirs cur names st))"
proof (induction names arbitrary: cur st)
  case Nil
  then show ?case by simp
next
  case (Cons name names)
  let ?d = "cur @ [name]"
  let ?st' = "st\<lparr>dirs := insert ?d (dirs st)\<rparr>"
  note a = Cons.IH[of ?d st] and b = Cons.IH[of ?d ?st']
  have c: "dirs st \<subseteq> dirs (fst (mkdirs ?d names ?st'))"
    using b by auto
  show ?case
    using a b c by simp
qed

lemma os_makedirs_frame:
  assumes "os_makedirs p st = (st0, r)"
  shows "world st0 = world st \<and> log st0 = log st \<and> cwd st0 = cwd st \<and>
         files st0 = files st \<and> denied st0 = denied st \<and> dirs st \<subseteq> dirs st0"
  using mkdirs_frame[of "path_start st p" "path_names p" st] assms
  by (simp add: os_makedirs_def)

lemma mkdirs_made:
  "mkdirs cur names st = (st0, None) \<Longrightarrow> is_dir st cur \<Longrightarrow> k \<le> length names \<Longrightarrow>
   is_dir st0 (cur @ take k names)"
proof (induction names arbitrary: cur st k)
  case Nil
  then show ?case by simp
next
  case (Cons name names)
  let ?d = "cur @ [name]"
  show ?case
  proof (cases k)
    case 0
    have "dirs st \<subseteq> dirs st0"
      using mkdirs_frame[of cur "name # names" st] Cons.prems(1) by simp
    with Cons.prems(2) 0 show ?thesis by (simp add: is_dir_mono)
  next
    case (Suc j)
    with Cons.prems(3) have j: "j \<le> length names" by simp
    show ?thesis
    proof (cases "is_dir st ?d")
      case True
      with Cons.prems have "mkdirs ?d names st = (st0, None)" by simp
      from Cons.IH[OF this True j] Suc show ?thesis by simp
    next
      case False
      let ?st' = "st\<lparr>dirs := insert ?d (dirs st)\<rparr>"
      from False Cons.prems have r: "mkdirs ?d names ?st' = (st0, None)"
        by (auto split: if_splits)
      have "is_dir ?st' ?d" by (simp add: is_dir_def)
      from Cons.IH[OF r this j] Suc show ?thesis by simp
    qed
  qed
qed

lemma open_w_opened:
  assumes "open_w st p = Inr (loc, st')"
  shows "st' = st\<lparr>files := (files st)(loc \<mapsto> [])\<rparr> \<and> resolve st p = Inr loc \<and>
         \<not> names_directory p \<and> \<not> is_dir st loc \<and> loc \<notin> denied st"
  using assms by (auto simp: open_w_def split: sum.splits if_splits)

lemma lookup_dirs_only:
  "dirs st' = dirs st \<Longrightarrow> lookup st cur names = Inr loc \<Longrightarrow> lookup st' cur names = Inr loc"
  by (induction names arbitrary: cur) (auto simp: is_dir_def split: if_splits)

lemma mkdirs_files_update:
  "mkdirs cur names st = (st0, None) \<Longrightarrow> loc \<notin> dirs st0 \<Longrightarrow>
   mkdirs cur names (st\<lparr>files := (files st)(loc \<mapsto> old)\<rparr>) =
     (st0\<lparr>files := (files st0)(loc \<mapsto> old)\<rparr>, None)"
proof (induction names arbitrary: cur st)
  case Nil
  then show ?case by simp
next
  case (Cons name names)
  let ?d = "cur @ [name]"
  from Cons.prems(1) have c: "is_dir st cur" by (auto split: if_splits)
  show ?case
  proof (cases "is_dir st ?d")
    case True
    with Cons c show ?thesis by simp
  next
    case False
    with Cons.prems(1) c have n: "files st ?d = None" "?d \<notin> denied st"
      and r: "mkdirs ?d names (st\<lparr>dirs := insert ?d (dirs st)\<rparr>) = (st0, None)"
      by (auto split: if_splits)
    have "?d \<in> dirs st0"
      using mkdirs_frame[of ?d names "st\<lparr>dirs := insert ?d (dirs st)\<rparr>"] r by auto
    with Cons.prems(2) have ne: "?d \<noteq> loc" by blast
    have sw: "st\<lparr>files := f, dirs := ds\<rparr> = st\<lparr>dirs := ds, files := f\<rparr>" for f ds
      by simp
    from Cons.IH[OF r Cons.prems(2)] False c n ne show ?thesis
      by (simp add: is_dir_def sw)
  qed
qed

lemma split_slash_plain: "47 \<notin> set s \<Longrightarrow> split_slash cur s = [cur @ s]"
  by (induction s arbitrary: cur) auto

lemma output_directory_names:
  "path_names output_directory = [lit ''furnitron'', lit ''data'', lit ''inference_output'']"
  by (simp add: path_names_def path_components_def output_directory_def)

lemma output_directory_start: "path_start st output_directory = cwd st"
  by (simp add: path_start_def py_startswith_def output_directory_def)

text \<open>Once \<^verbatim>\<open>os.makedirs\<close> has returned, the output directory and its ancestors exist.\<close>

lemma output_directory_made:
  assumes "os_makedirs output_directory st = (st0, None)"
  shows "is_dir st0 (cwd st0)"
    and "is_dir st0 (cwd st0 @ [lit ''furnitron''])"
    and "is_dir st0 (cwd st0 @ [lit ''furnitron'', lit ''data''])"
    and "is_dir st0 (cwd st0 @ [lit ''furnitron'', lit ''data'', lit ''inference_output''])"
proof -
  let ?names = "[lit ''furnitron'', lit ''data'', lit ''inference_output'']"
  from assms have m: "mkdirs (cwd st) ?names st = (st0, None)"
    by (simp only: os_makedirs_def output_directory_names output_directory_start)
  then have c: "is_dir st (cwd st)"
    by (simp split: if_splits)
  have e: "cwd st0 = cwd st" using os_makedirs_frame[OF assms] by simp
  note k = mkdirs_made[OF m c]
  from k[of 0] show "is_dir st0 (cwd st0)" by (simp add: e)
  from k[of 1] show "is_dir st0 (cwd st0 @ [lit ''furnitron''])" by (simp add: e)
  from k[of 2] show "is_dir st0 (cwd st0 @ [lit ''furnitron'', lit ''data''])"
    by (simp add: e numeral_2_eq_2)
  from k[of 3] show "is_dir st0 (cwd st0 @ [lit ''furnitron'', lit ''data'', lit ''inference_output''])"
    by (simp add: e numeral_3_eq_3)
qed

text \<open>
  A file name without a directory part lies in the output directory, and the output file
  is opened unless a directory has that name or the operating system refuses the file.
\<close>

lemma plain_name_is_opened:
  assumes mk: "os_makedirs output_directory st = (st0, None)"
      and plain: "47 \<notin> set name" "name \<noteq> []" "name \<noteq> lit ''.''" "name \<noteq> lit ''..''"
  shows "open_w st0 (os_path_join output_directory name) =
           (if is_dir st0 (cwd st0 @ [lit ''furnitron'', lit ''data'', lit ''inference_output'', name]) \<or>
               cwd st0 @ [lit ''furnitron'', lit ''data'', lit ''inference_output'', name] \<in> denied st0
            then Inl OSError
            else Inr (cwd st0 @ [lit ''furnitron'', lit ''data'', lit ''inference_output'', name],
                      st0\<lparr>files := (files st0)
                        (cwd st0 @ [lit ''furnitron'', lit ''data'', lit ''inference_output'', name] \<mapsto> [])\<rparr>))"
proof -
  let ?p = "lit ''furnitron/data/inference_output/'' @ name"
  let ?out = "cwd st0 @ [lit ''furnitron'', lit ''data'', lit ''inference_output'', name]"
  from plain have j: "os_path_join output_directory name = ?p"
    by (cases name) (simp_all add: os_path_join_def output_directory_def py_startswith_def)
  have c: "path_components ?p = [lit ''furnitron'', lit ''data'', lit ''inference_output'', name]"
    using plain(1) by (simp add: path_components_def split_slash_plain)
  have n: "path_names ?p = [lit ''furnitron'', lit ''data'', lit ''inference_output'', name]"
    unfolding path_names_def c using plain by simp
  have d: "\<not> names_directory ?p"
    unfolding names_directory_def c using plain by simp
  have s: "path_start st0 ?p = cwd st0"
    by (simp add: path_start_def py_startswith_def)
  have l: "lookup st0 (cwd st0) [lit ''furnitron'', lit ''data'', lit ''inference_output'', name] =
      Inr ?out"
    using output_directory_made[OF mk] plain by simp
  have r: "resolve st0 ?p = Inr ?out"
    unfolding resolve_def n s l by simp
  show ?thesis
    unfolding j open_w_def r using d by simp
qed

section \<open>Facts about \<^verbatim>\<open>produce_output\<close>\<close>

lemma produce_output_opened:
  assumes "os_makedirs output_directory st = (st0, None)"
      and "open_w st0 (os_path_join output_directory OUTPUT_FILE_NAME) = Inr (output_file, st1)"
  shows "produce_output env URLS_FILE OUTPUT_FILE_NAME st =
           (case open_r_read st1 URLS_FILE of
              Inl e \<Rightarrow> (st1, Some e)
            | Inr content \<Rightarrow> url_loop env output_file (py_splitlines content) st1)"
  using assms by (simp add: produce_output_def)

lemma produce_output_not_opened:
  assumes "os_makedirs output_directory st = (st0, None)"
      and "open_w st0 (os_path_join output_directory OUTPUT_FILE_NAME) = Inl e"
  shows "produce_output env URLS_FILE OUTPUT_FILE_NAME st = (st0, Some e) \<and>
         world st0 = world st \<and> log st0 = log st \<and> files st0 = files st"
  using assms os_makedirs_frame[OF assms(1)] by (simp add: produce_output_def)

lemma opened_file_is_empty:
  assumes "os_makedirs output_directory st = (st0, None)"
      and "open_w st0 p = Inr (output_file, st1)"
  shows "files st1 = (files st)(output_file \<mapsto> [])" and "log st1 = log st"
    and "world st1 = world st"
  using open_w_opened[OF assms(2)] os_makedirs_frame[OF assms(1)] by simp_all

lemma produce_output_old_content:
  assumes mk: "os_makedirs output_directory st = (st0, None)"
      and ow: "open_w st0 (os_path_join output_directory OUTPUT_FILE_NAME) = Inr (output_file, st1)"
  shows "produce_output env URLS_FILE OUTPUT_FILE_NAME
           (st\<lparr>files := (files st)(output_file \<mapsto> old)\<rparr>) =
         produce_output env URLS_FILE OUTPUT_FILE_NAME st"
proof -
  let ?p = "os_path_join output_directory OUTPUT_FILE_NAME"
  let ?st' = "st\<lparr>files := (files st)(output_file \<mapsto> old)\<rparr>"
  let ?st0' = "st0\<lparr>files := (files st0)(output_file \<mapsto> old)\<rparr>"
  note o = open_w_opened[OF ow]
  from o have nd: "output_file \<notin> dirs st0" by (simp add: is_dir_def)
  have mk': "os_makedirs output_directory ?st' = (?st0', None)"
    using mkdirs_files_update[OF mk[unfolded os_makedirs_def] nd, of old]
    by (simp add: os_makedirs_def)
  have "resolve ?st0' ?p = Inr output_file"
    using o lookup_dirs_only[of ?st0' st0 "path_start st0 ?p" "path_names ?p" output_file]
    by (simp add: resolve_def split: if_splits)
  with o have ow': "open_w ?st0' ?p = Inr (output_file, st1)"
    by (simp add: open_w_def)
  show ?thesis
    by (simp only: produce_output_opened[OF mk ow] produce_output_opened[OF mk' ow'])
qed

text \<open>
  The output file that \<^verbatim>\<open>main()\<close> names: its path repeats the output directory, and
  unless a directory \<^verbatim>\<open>furnitron\<close> lies inside the output directory, \<^verbatim>\<open>open\<close> raises
  (\<^verbatim>\<open>FileNotFoundError\<close> when nothing has that name); no file is emptied and no URL is
  processed.
\<close>

lemma main_output_path:
  "os_path_join output_directory main_OUTPUT_FILE =
     lit ''furnitron/data/inference_output/furnitron/data/inference_output/product_names.txt''"
  by (simp add: os_path_join_def output_directory_def main_OUTPUT_FILE_def py_startswith_def)

lemma main_output_file_is_not_opened:
  assumes mk: "os_makedirs output_directory st = (st0, None)"
      and nested: "\<not> is_dir st0
         (cwd st0 @ [lit ''furnitron'', lit ''data'', lit ''inference_output'', lit ''furnitron''])"
  shows "produce_output env URLS_FILE main_OUTPUT_FILE st =
           (st0, Some (no_directory st0
              (cwd st0 @ [lit ''furnitron'', lit ''data'', lit ''inference_output'', lit ''furnitron'']))) \<and>
         world st0 = world st \<and> log st0 = log st \<and> files st0 = files st"
proof -
  let ?p = "lit ''furnitron/data/inference_output/furnitron/data/inference_output/product_names.txt''"
  let ?names = "[lit ''furnitron'', lit ''data'', lit ''inference_output'', lit ''furnitron'',
    lit ''data'', lit ''inference_output'', lit ''product_names.txt'']"
  let ?d = "cwd st0 @ [lit ''furnitron'', lit ''data'', lit ''inference_output'', lit ''furnitron'']"
  have n: "path_names ?p = ?names"
    by (simp add: path_names_def path_components_def)
  have s: "path_start st0 ?p = cwd st0"
    by (simp add: path_start_def py_startswith_def)
  have l: "lookup st0 (cwd st0) ?names = Inl (no_directory st0 ?d)"
    using output_directory_made[OF mk] nested by simp
  have r: "resolve st0 ?p = Inl (no_directory st0 ?d)"
    unfolding resolve_def n s l by simp
  have "open_w st0 (os_path_join output_directory main_OUTPUT_FILE) = Inl (no_directory st0 ?d)"
    unfolding main_output_path open_w_def r by simp
  from produce_output_not_opened[OF mk this] show ?thesis .
qed

section \<open>The file system of the scenario\<close>

lemma demo_files_state_dirs:
  "cwd demo_files_state = [lit ''app'']"
  "is_dir demo_files_state [lit ''app'']"
  "is_dir demo_files_state [lit ''app'', lit ''furnitron'']"
  "is_dir demo_files_state [lit ''app'', lit ''furnitron'', lit ''data'']"
  "is_dir demo_files_state [lit ''app'', lit ''furnitron'', lit ''data'', lit ''inference_output'']"
  "\<not> is_dir demo_files_state demo_out"
  "demo_out \<notin> denied demo_files_state"
  by (simp_all add: demo_files_state_def is_dir_def demo_out_def)

lemma demo_makedirs: "os_makedirs output_directory demo_files_state = (demo_files_state, None)"
  using demo_files_state_dirs
  by (simp add: os_makedirs_def output_directory_names output_directory_start)

lemma demo_out_path:
  "os_path_join output_directory demo_out_name = lit ''furnitron/data/inference_output/out.txt''"
  by (simp add: os_path_join_def output_directory_def demo_out_name_def py_startswith_def)

lemma demo_out_resolve:
  "resolve demo_files_state (lit ''furnitron/data/inference_output/out.txt'') = Inr demo_out"
  "\<not> names_directory (lit ''furnitron/data/inference_output/out.txt'')"
proof -
  have n: "path_names (lit ''furnitron/data/inference_output/out.txt'') =
      [lit ''furnitron'', lit ''data'', lit ''inference_output'', lit ''out.txt'']"
    by (simp add: path_names_def path_components_def)
  have s: "path_start demo_files_state (lit ''furnitron/data/inference_output/out.txt'') =
      [lit ''app'']"
    by (simp add: path_start_def py_startswith_def demo_files_state_dirs)
  have "lookup demo_files_state [lit ''app'']
      [lit ''furnitron'', lit ''data'', lit ''inference_output'', lit ''out.txt''] = Inr demo_out"
    using demo_files_state_dirs by (simp add: demo_out_def)
  then show "resolve demo_files_state (lit ''furnitron/data/inference_output/out.txt'') =
      Inr demo_out"
    unfolding resolve_def n s by simp
  show "\<not> names_directory (lit ''furnitron/data/inference_output/out.txt'')"
    by (simp add: names_directory_def path_components_def)
qed

lemma demo_open_w:
  "open_w demo_files_state (os_path_join output_directory demo_out_name) =
     Inr (demo_out, demo_files_state\<lparr>files := (files demo_files_state)(demo_out \<mapsto> [])\<rparr>)"
  unfolding demo_out_path open_w_def
  using demo_out_resolve demo_files_state_dirs by simp

lemma demo_open_r_read:
  "open_r_read (demo_files_state\<lparr>files := (files demo_files_state)(demo_out \<mapsto> [])\<rparr>)
     demo_urls_file = Inr (lit ''siteA.com\<newline>siteB.com\<newline>siteC.com\<newline>'')"
proof -
  let ?st = "demo_files_state\<lparr>files := (files demo_files_state)(demo_out \<mapsto> [])\<rparr>"
  have n: "path_names demo_urls_file = [lit ''urls.csv'']"
    "\<not> names_directory demo_urls_file" "demo_urls_file \<noteq> []"
    "path_start ?st demo_urls_file = [lit ''app'']"
    by (simp_all add: path_names_def path_components_def names_directory_def demo_urls_file_def
        path_start_def py_startswith_def demo_files_state_dirs)
  have l: "lookup ?st [lit ''app''] [lit ''urls.csv''] = Inr [lit ''app'', lit ''urls.csv'']"
    using demo_files_state_dirs by simp
  have f: "files ?st [lit ''app'', lit ''urls.csv''] =
      Some (lit ''siteA.com\<newline>siteB.com\<newline>siteC.com\<newline>'')"
    "\<not> is_dir ?st [lit ''app'', lit ''urls.csv'']"
    "[lit ''app'', lit ''urls.csv''] \<notin> denied ?st"
    by (simp_all add: demo_files_state_def demo_out_def is_dir_def)
  have u: "universal_newlines (lit ''siteA.com\<newline>siteB.com\<newline>siteC.com\<newline>'') =
      lit ''siteA.com\<newline>siteB.com\<newline>siteC.com\<newline>''"
    by simp
  show ?thesis
    unfolding open_r_read_def resolve_def using n l f u by simp
qed

lemma demo_urls_split:
  "py_splitlines (lit ''siteA.com\<newline>siteB.com\<newline>siteC.com\<newline>'') = [siteA, siteB, siteC]"
  by (simp add: py_splitlines_def is_linebreak_def siteA_def siteB_def siteC_def)

lemma demo_produce_output:
  "produce_output env demo_urls_file demo_out_name demo_files_state =
     url_loop env demo_out [siteA, siteB, siteC]
       (demo_files_state\<lparr>files := (files demo_files_state)(demo_out \<mapsto> [])\<rparr>)"
  by (simp only: produce_output_opened[OF demo_makedirs demo_open_w] demo_open_r_read
      sum.case demo_urls_split)

lemma main_output_file_example:
  "produce_output env main_URLS_FILE main_OUTPUT_FILE demo_files_state =
     (demo_files_state, Some FileNotFoundError)"
proof -
  have "\<not> is_dir demo_files_state (cwd demo_files_state @
      [lit ''furnitron'', lit ''data'', lit ''inference_output'', lit ''furnitron''])"
    "no_directory demo_files_state (cwd demo_files_state @
      [lit ''furnitron'', lit ''data'', lit ''inference_output'', lit ''furnitron'']) =
       FileNotFoundError"
    by (simp_all add: demo_files_state_def is_dir_def no_directory_def demo_out_def)
  with main_output_file_is_not_opened[OF demo_makedirs, of env main_URLS_FILE]
  show ?thesis by simp
qed

lemma fresh_makedirs:
  "os_makedirs output_directory demo_state =
     (demo_state\<lparr>dirs := {[lit ''app'', lit ''furnitron'', lit ''data'', lit ''inference_output''],
        [lit ''app'', lit ''furnitron'', lit ''data''], [lit ''app'', lit ''furnitron''],
        [lit ''app'']}\<rparr>, None)"
proof -
  have c: "cwd demo_state = [lit ''app'']" by (simp add: demo_state_def)
  have s: "mkdirs cur (name # names) st = mkdirs (cur @ [name]) names (st\<lparr>dirs := insert (cur @ [name]) (dirs st)\<rparr>)"
    if "is_dir st cur" "cur @ [name] \<notin> dirs st" "files st (cur @ [name]) = None"
       "cur @ [name] \<notin> denied st" for cur name names and st :: "pystr run_state"
    using that by (simp add: is_dir_def)
  have d: "dirs demo_state = {[lit ''app'']}" "files demo_state = Map.empty" "denied demo_state = {}"
    by (simp_all add: demo_state_def)
  show ?thesis
    unfolding os_makedirs_def output_directory_names output_directory_start c
    by (simp add: s is_dir_def d del: mkdirs.simps(2))
qed

lemma main_output_file_fresh_example:
  "snd (produce_output env main_URLS_FILE main_OUTPUT_FILE demo_state) = Some FileNotFoundError \<and>
   log (fst (produce_output env main_URLS_FILE main_OUTPUT_FILE demo_state)) = [] \<and>
   files (fst (produce_output env main_URLS_FILE main_OUTPUT_FILE demo_state)) = Map.empty"
proof -
  let ?st0 = "demo_state\<lparr>dirs := {[lit ''app'', lit ''furnitron'', lit ''data'', lit ''inference_output''],
        [lit ''app'', lit ''furnitron'', lit ''data''], [lit ''app'', lit ''furnitron''],
        [lit ''app'']}\<rparr>"
  have "\<not> is_dir ?st0 (cwd ?st0 @
      [lit ''furnitron'', lit ''data'', lit ''inference_output'', lit ''furnitron''])"
    "no_directory ?st0 (cwd ?st0 @
      [lit ''furnitron'', lit ''data'', lit ''inference_output'', lit ''furnitron'']) =
       FileNotFoundError"
    "log demo_state = []" "files demo_state = Map.empty"
    by (simp_all add: demo_state_def is_dir_def no_directory_def)
  with main_output_file_is_not_opened[OF fresh_makedirs, of env main_URLS_FILE]
  show ?thesis by simp
qed

section \<open>A page whose text node holds a line break\<close>

lemma wrapped_scrape:
  "scrape_product_names wrapped_env url st =
     (st\<lparr>world := url, log := log st @ [Info_Processing_URL url]\<rparr>,
      Inr (Some [lit ''Oak\<newline>  Chair'']))"
  by (simp add: scrape_defs wrapped_env_def pageW_def strip_defs select_positive_def)

lemma wrapped_url_loop:
  "file_content (fst (url_loop wrapped_env path [siteA, siteB, siteC] st)) path =
     file_content st path @
     lit ''\<newline>URL: siteA.com\<newline>Oak\<newline>  Chair\<newline>\<newline>URL: siteB.com\<newline>Oak\<newline>  Chair\<newline>\<newline>URL: siteC.com\<newline>Oak\<newline>  Chair\<newline>''"
proof -
  have "run_outcomes wrapped_env path [siteA, siteB, siteC] st =
     [(siteA, Inr (Some [lit ''Oak\<newline>  Chair''])), (siteB, Inr (Some [lit ''Oak\<newline>  Chair''])),
      (siteC, Inr (Some [lit ''Oak\<newline>  Chair'']))]"
    by (simp add: process_url_def wrapped_scrape)
  then have "concat (map contribution (run_outcomes wrapped_env path [siteA, siteB, siteC] st)) =
     lit ''\<newline>URL: siteA.com\<newline>Oak\<newline>  Chair\<newline>\<newline>URL: siteB.com\<newline>Oak\<newline>  Chair\<newline>\<newline>URL: siteC.com\<newline>Oak\<newline>  Chair\<newline>''"
    by (simp add: url_block_def url_marker_line_def text_line_def siteA_def siteB_def siteC_def)
  with url_loop_facts[of wrapped_env path "[siteA, siteB, siteC]" st] show ?thesis
    by simp
qed

section \<open>Examples for the Search Indexer\<close>

lemmas index_eval = index_line_def py_startswith_def URL_marker_def py_strip_def strip_with_def
  rstrip_with_def py_isspace_def py_split_sep_def py_index_def
  split_sep.simps[of "[85, 82, 76, 58]"]

lemma plain_examples:
  "plain_url (lit ''A'')" "plain_url (lit ''B'')"
  "plain_name (lit ''n1'')" "plain_name (lit ''n2'')" "plain_name (lit ''n3'')"
  by (simp_all add: plain_url_def plain_name_def one_line_def py_startswith_def URL_marker_def
      py_strip_def strip_with_def rstrip_with_def py_isspace_def sublist_Cons_right)

text \<open>
  A URL that contains the marker text is cut at its second occurrence: \<^verbatim>\<open>split("URL:")[1]\<close> is
  the piece between the first two markers of the line.
\<close>

lemma marker_inside_url_example:
  "index_line (text_line (url_marker_line (lit ''http://x.com/?ref=URL:y''))) ([], []) =
     Inr (lit ''http://x.com/?ref='', [])"
  by (simp add: index_line_def text_line_def url_marker_line_def py_startswith_def URL_marker_def py_strip_def
      strip_with_def rstrip_with_def py_isspace_def py_split_sep_def py_index_def
      split_sep.simps[of "[85, 82, 76, 58]"])

section \<open>Examples of the string operations\<close>

lemma py_strip_example: "py_strip (lit ''  a b \<newline>'') = lit ''a b''"
  by (simp add: py_strip_def strip_with_def rstrip_with_def py_isspace_def)

lemma py_split_example: "py_split (lit ''  a  b c '') = [lit ''a'', lit ''b'', lit ''c'']"
  by (simp add: py_split_def py_isspace_def)

lemma py_split_sep_example:
  "py_split_sep (lit ''URL: x URL:y'') (lit ''URL:'') = [[], lit '' x '', lit ''y'']"
  "py_split_sep (lit ''URL:'') (lit ''URL:'') = [[], []]"
  "py_split_sep (lit ''abc'') (lit ''URL:'') = [lit ''abc'']"
  by (simp_all add: py_split_sep_def split_sep.simps[of "[85, 82, 76, 58]"])

lemma py_splitlines_example:
  "py_splitlines (lit ''a\<newline>\<newline>b'' @ [13, 10] @ lit ''c'' @ [13] @ lit ''d\<newline>'') =
     [lit ''a'', [], lit ''b'', lit ''c'', lit ''d'']"
  "py_splitlines [] = []"
  "py_splitlines (lit ''\<newline>'') = [[]]"
  by (simp_all add: py_splitlines_def is_linebreak_def)

lemma file_lines_example:
  "file_lines (lit ''a'' @ [13, 10] @ lit ''b'' @ [13] @ lit ''c\<newline>d'') =
     [lit ''a\<newline>'', lit ''b\<newline>'', lit ''c\<newline>'', lit ''d'']"
  by (simp add: file_lines_def)

lemma os_path_join_example:
  "os_path_join output_directory (lit ''urls_output.txt'') =
     lit ''furnitron/data/inference_output/urls_output.txt''"
  "os_path_join output_directory (lit ''/tmp/out.txt'') = lit ''/tmp/out.txt''"
  by (simp_all add: os_path_join_def output_directory_def py_startswith_def)

section \<open>Candidate Filter: the claim\<close>

text \<open>
  C4. For every input sequence of strings, the Candidate Filter returns an
  order-preserving subsequence of the input, and it keeps exactly the strings that are
  non-empty after trimming surrounding whitespace and whose whitespace-delimited word
  count is at most 10.
\<close>

theorem candidate_filter_subseq_iff:
  "subseq (get_candidate_names xs) xs \<and>
   get_candidate_names xs = filter (\<lambda>t. py_strip t \<noteq> [] \<and> word_count t \<le> 10) xs"
  by (simp add: get_candidate_names_def filter_text_iff)

theorem candidate_filter_subseq_iff_witness:
  "get_candidate_names
     [lit ''Oak Chair'', lit ''   '', [], lit ''a b c d e f g h i j k'', lit '' a b c d e f g h i j '',
      lit ''Lamp''] =
     [lit ''Oak Chair'', lit '' a b c d e f g h i j '', lit ''Lamp'']"
  using candidate_filter_subseq_iff[of "[lit ''Oak Chair'', lit ''   '', [],
      lit ''a b c d e f g h i j k'', lit '' a b c d e f g h i j '', lit ''Lamp'']"]
  by (simp add: py_strip_def strip_with_def rstrip_with_def py_isspace_def word_count_def)

section \<open>Text Extractor: the claim\<close>

text \<open>
  C8. For every document tree, the Text Extractor returns one string per leaf text node
  whose content is not entirely whitespace, each trimmed of surrounding whitespace, in
  depth-first pre-order; element leaves and other leaves that are not text nodes
  contribute nothing, and no string of the output is empty or entirely whitespace.
\<close>

theorem text_extractor_leaf_texts:
  "getAllLeafNodesText root =
     map (\<lambda>n. js_trim (textContent n)) (filter text_leaf (preorder root)) \<and>
   list_all (\<lambda>s. s \<noteq> [] \<and> \<not> list_all js_isspace s) (getAllLeafNodesText root)"
proof
  show eq: "getAllLeafNodesText root =
     map (\<lambda>n. js_trim (textContent n)) (filter text_leaf (preorder root))"
    by (rule getAllLeafNodesText_preorder)
  have "s \<noteq> [] \<and> \<not> list_all js_isspace s" if "s \<in> set (getAllLeafNodesText root)" for s
  proof -
    from that obtain n where n: "text_leaf n" "s = js_trim (textContent n)"
      unfolding eq by auto
    then have "s \<noteq> []" by (simp add: text_leaf_def js_trim_Nil_iff)
    with n(2) show ?thesis using js_trim_not_blank by blast
  qed
  then show "list_all (\<lambda>s. s \<noteq> [] \<and> \<not> list_all js_isspace s) (getAllLeafNodesText root)"
    unfolding list_all_iff by blast
qed

theorem text_extractor_leaf_texts_witness:
  "getAllLeafNodesText pageA = [lit ''Oak Chair'', lit ''Welcome to our store'', lit ''Lamp''] \<and>
   list_all (\<lambda>s. s \<noteq> [] \<and> \<not> list_all js_isspace s) (getAllLeafNodesText pageA)"
proof -
  note t = text_extractor_leaf_texts[of pageA]
  from t have "getAllLeafNodesText pageA =
      map (\<lambda>n. js_trim (textContent n)) (filter text_leaf (preorder pageA))"
    by (rule conjunct1)
  also have "\<dots> = [lit ''Oak Chair'', lit ''Welcome to our store'', lit ''Lamp'']"
    by (simp add: pageA_def text_leaf_def TEXT_NODE_def js_trim_def strip_with_def rstrip_with_def
        js_isspace_def)
  finally have a: "getAllLeafNodesText pageA =
      [lit ''Oak Chair'', lit ''Welcome to our store'', lit ''Lamp'']" .
  from t have b: "list_all (\<lambda>s. s \<noteq> [] \<and> \<not> list_all js_isspace s) (getAllLeafNodesText pageA)"
    by (rule conjunct2)
  from a b show ?thesis by (rule conjI)
qed

section \<open>Batch Classifier: the claim\<close>

text \<open>
  C3. For a classifier that labels each candidate on its own, for every candidate list,
  every batch size \<open>B \<ge> 1\<close> and every partition of the list into contiguous chunks:
  the loop with step \<open>B\<close>, and classifying the chunks one by one and concatenating their
  positives, both give what classifying the whole list as one chunk gives, namely the
  candidates labelled positive, in their order, a subsequence of the input. On the empty
  list the result is empty and the state of the collaborators is untouched, whatever
  they would do when called: the model is not invoked. For every classifier, the loop
  with step \<open>B\<close> is the classification, chunk by chunk, of the partition of the list into
  chunks of \<open>B\<close> items, none empty and none longer than \<open>B\<close>.
\<close>

theorem batching_does_not_alter_results:
  assumes "labels_items env label" and "0 < B" and "concat chunks = names"
  shows "snd (batch_loop env B names 0 [] st) = snd (classify_chunks env [names] [] st) \<and>
         snd (classify_chunks env chunks [] st) = snd (classify_chunks env [names] [] st) \<and>
         snd (model_inference env names st) = Inr (filter (\<lambda>n. label n \<noteq> 0) names) \<and>
         snd (batch_loop env B names 0 [] st) = Inr (filter (\<lambda>n. label n \<noteq> 0) names) \<and>
         subseq (filter (\<lambda>n. label n \<noteq> 0) names) names \<and>
         model_inference env0 [] st0 = (st0, Inr []) \<and>
         batch_loop env0 B names 0 [] st0 = classify_chunks env0 (chunks_of B names) [] st0 \<and>
         concat (chunks_of B names) = names \<and>
         (\<forall>chunk\<in>set (chunks_of B names). chunk \<noteq> [] \<and> length chunk \<le> B)"
proof -
  let ?positives = "filter (\<lambda>n. label n \<noteq> 0) names"
  have a: "snd (batch_loop env B names 0 [] st) = Inr ?positives"
    using batch_loop_labels[OF assms(1,2), of names 0 "[]" st] by simp
  have b: "snd (classify_chunks env [names] [] st) = Inr ?positives"
    using classify_chunks_labels[OF assms(1), of "[names]" "[]" st]
    by (simp del: classify_chunks.simps)
  have c: "snd (classify_chunks env chunks [] st) = Inr ?positives"
    using classify_chunks_labels[OF assms(1), of chunks "[]" st] assms(3)
    by (simp del: classify_chunks.simps)
  have d: "snd (model_inference env names st) = Inr ?positives"
    using batch_loop_labels[OF assms(1), of BATCH_SIZE names 0 "[]" st]
    by (simp add: model_inference_def BATCH_SIZE_def)
  have e: "model_inference env0 [] st0 = (st0, Inr [])"
    by (simp add: model_inference_def batch_loop_empty)
  have f: "subseq ?positives names" by simp
  have g: "batch_loop env0 B names 0 [] st0 = classify_chunks env0 (chunks_of B names) [] st0"
    using batch_loop_chunks_of[OF assms(2), of env0 names 0 "[]" st0] by simp
  note h = chunks_of_partition[OF assms(2), of names]
  show ?thesis
    by (intro conjI)
       (rule trans[OF a b[symmetric]] trans[OF c b[symmetric]] d a f e g h[THEN conjunct1]
          h[THEN conjunct2])+
qed

theorem batching_does_not_alter_results_witness:
  "labels_items demo_env demo_label \<and> (0::nat) < 2 \<and>
   concat [[lit ''Oak Chair''], [lit ''Welcome to our store'', lit ''Lamp'']] =
     [lit ''Oak Chair'', lit ''Welcome to our store'', lit ''Lamp''] \<and>
   snd (batch_loop demo_env 2 [lit ''Oak Chair'', lit ''Welcome to our store'', lit ''Lamp''] 0 []
     demo_state) = Inr [lit ''Oak Chair'', lit ''Lamp''] \<and>
   snd (classify_chunks demo_env [[lit ''Oak Chair''], [lit ''Welcome to our store'', lit ''Lamp'']] []
     demo_state) = Inr [lit ''Oak Chair'', lit ''Lamp''] \<and>
   model_inference crashing_env [] demo_state = (demo_state, Inr []) \<and>
   chunks_of 2 [lit ''Oak Chair'', lit ''Welcome to our store'', lit ''Lamp''] =
     [[lit ''Oak Chair'', lit ''Welcome to our store''], [lit ''Lamp'']] \<and>
   batch_loop crashing_env 2 [lit ''Oak Chair'', lit ''Welcome to our store'', lit ''Lamp''] 0 []
     demo_state =
   classify_chunks crashing_env
     [[lit ''Oak Chair'', lit ''Welcome to our store''], [lit ''Lamp'']] [] demo_state"
proof -
  let ?names = "[lit ''Oak Chair'', lit ''Welcome to our store'', lit ''Lamp'']"
  let ?chunks = "[[lit ''Oak Chair''], [lit ''Welcome to our store'', lit ''Lamp'']]"
  have two: "(0::nat) < 2" by simp
  have c: "concat ?chunks = ?names" by simp
  have f: "filter (\<lambda>n. demo_label n \<noteq> 0) ?names = [lit ''Oak Chair'', lit ''Lamp'']"
    by (simp add: demo_label_def)
  have k: "chunks_of 2 ?names = [[lit ''Oak Chair'', lit ''Welcome to our store''], [lit ''Lamp'']]"
    by (simp add: chunks_of_step)
  note t = batching_does_not_alter_results[OF demo_labels_items two c, of demo_state
    crashing_env demo_state]
  note t1 = t[THEN conjunct1]
  note t2 = t[THEN conjunct2, THEN conjunct1]
  note t4 = t[THEN conjunct2, THEN conjunct2, THEN conjunct2, THEN conjunct1]
  note t7 = t[THEN conjunct2, THEN conjunct2, THEN conjunct2, THEN conjunct2, THEN conjunct2,
    THEN conjunct2, THEN conjunct1]
  note t6 = t[THEN conjunct2, THEN conjunct2, THEN conjunct2, THEN conjunct2, THEN conjunct2,
    THEN conjunct1]
  have w4: "snd (batch_loop demo_env 2 ?names 0 [] demo_state) = Inr [lit ''Oak Chair'', lit ''Lamp'']"
    using t4 unfolding f .
  have w5: "snd (classify_chunks demo_env ?chunks [] demo_state) =
      Inr [lit ''Oak Chair'', lit ''Lamp'']"
    by (rule trans[OF t2 trans[OF t1[symmetric] w4]])
  have w7: "batch_loop crashing_env 2 ?names 0 [] demo_state =
      classify_chunks crashing_env [[lit ''Oak Chair'', lit ''Welcome to our store''], [lit ''Lamp'']]
        [] demo_state"
    using t7 unfolding k .
  show ?thesis
    by (intro conjI) (rule demo_labels_items two c w4 w5 t6 k w7)+
qed

section \<open>Page Scraper: the claim\<close>

text \<open>
  C2, as amended. For every URL, if navigation, the readiness wait or the extraction
  script raises an exception of Selenium's hierarchy (a timeout, a stale reference or any
  other \<^verbatim>\<open>WebDriverException\<close>), the Page Scraper catches it, logs it and returns
  \<^verbatim>\<open>None\<close>, raising nothing past its own boundary; the log gains the line of the URL
  and the line of the handler, and no file changes. Whatever happens, no exception of
  Selenium's hierarchy leaves the Page Scraper.
\<close>

theorem page_scraper_catches_selenium_errors:
  assumes "browser_failure env (world st) url = Some e" and "is_WebDriverException e"
  shows "snd (scrape_product_names env url st) = Inr None \<and>
         log (fst (scrape_product_names env url st)) =
           log st @ [Info_Processing_URL url, handler_entry url e] \<and>
         files (fst (scrape_product_names env url st)) = files st \<and>
         (snd (scrape_product_names env0 url0 st0) = Inl e0 \<longrightarrow> \<not> is_WebDriverException e0)"
  using scrape_product_names_browser_failure[OF assms]
    scrape_product_names_raises[of env0 url0 st0 e0]
  by blast

theorem page_scraper_catches_selenium_errors_witness:
  "browser_failure demo_env (world demo_state) siteB = Some TimeoutException \<and>
   is_WebDriverException TimeoutException \<and>
   snd (scrape_product_names demo_env siteB demo_state) = Inr None \<and>
   log (fst (scrape_product_names demo_env siteB demo_state)) =
     [Info_Processing_URL siteB, Error_encountered TimeoutException] \<and>
   snd (scrape_product_names crashing_env siteA demo_state) = Inl OtherException \<and>
   \<not> is_WebDriverException OtherException"
proof -
  have b: "browser_failure demo_env (world demo_state) siteB = Some TimeoutException"
    by (rule demo_browser_failure)
  have w: "is_WebDriverException TimeoutException" by simp
  have c: "snd (scrape_product_names crashing_env siteA demo_state) = Inl OtherException"
    by (simp add: crashing_scrape_A)
  note t = page_scraper_catches_selenium_errors[OF b w,
    where ?env0.0 = crashing_env and ?url0.0 = siteA and ?st0.0 = demo_state
      and ?e0.0 = OtherException]
  from t c have "\<not> is_WebDriverException OtherException" by blast
  with t b w c show ?thesis
    by (simp add: handler_entry_def demo_state_def)
qed

text \<open>
  C2 as stated says that an empty list is returned. When \<^verbatim>\<open>siteB.com\<close> times out, the
  value returned is \<^verbatim>\<open>None\<close>, which is not the empty list.
\<close>

theorem page_scraper_returns_None_counterexample:
  "browser_failure demo_env (world demo_state) siteB = Some TimeoutException \<and>
   snd (scrape_product_names demo_env siteB demo_state) = Inr None \<and>
   snd (scrape_product_names demo_env siteB demo_state) \<noteq> Inr (Some [])"
  by (simp add: demo_browser_failure demo_scrape_B)

section \<open>Run Orchestrator: the claims\<close>

text \<open>
  C1, as amended. No exception of Selenium's hierarchy ever ends a run. With
  collaborators that raise no other exception: a URL whose page fails leaves the files
  alone, is logged and does not stop the loop; the run ends without an exception; every
  URL of the list is processed exactly once, in order, none retried; and the output file
  gains exactly the blocks of the URLs that yielded positives.
\<close>

theorem selenium_errors_do_not_stop_the_run:
  assumes "raises_only_WebDriverException env"
  shows "(snd (url_loop env0 path0 urls0 st0) = Some e0 \<longrightarrow> \<not> is_WebDriverException e0) \<and>
         (browser_failure env (world st1) url = Some e \<longrightarrow>
            snd (process_url env path url st1) = None \<and>
            files (fst (process_url env path url st1)) = files st1 \<and>
            log (fst (process_url env path url st1)) =
              log st1 @ [Info_Processing_URL url, handler_entry url e]) \<and>
         snd (url_loop env path urls st) = None \<and>
         processed_urls (log (fst (url_loop env path urls st))) = processed_urls (log st) @ urls \<and>
         map fst (run_outcomes env path urls st) = urls \<and>
         file_content (fst (url_loop env path urls st)) path =
           file_content st path @ concat (map contribution (run_outcomes env path urls st))"
proof -
  have fin: "snd (url_loop env path urls st) = None"
    using assms by (rule url_loop_continues)
  then have all: "map fst (run_outcomes env path urls st) = urls"
    by (rule url_loop_completes)
  have one: "snd (process_url env path url st1) = None \<and>
            files (fst (process_url env path url st1)) = files st1 \<and>
            log (fst (process_url env path url st1)) =
              log st1 @ [Info_Processing_URL url, handler_entry url e]"
    if "browser_failure env (world st1) url = Some e"
    using process_url_browser_failure[OF that browser_failure_raises[OF assms that]] by simp
  show ?thesis
    using fin all one url_loop_facts[of env path urls st]
      url_loop_raises[of env0 path0 urls0 st0 e0]
    by simp
qed

theorem selenium_errors_do_not_stop_the_run_witness:
  "raises_only_WebDriverException demo_env \<and>
   browser_failure demo_env (world demo_state) siteB = Some TimeoutException \<and>
   snd (process_url demo_env demo_out siteB demo_state) = None \<and>
   log (fst (process_url demo_env demo_out siteB demo_state)) =
     [Info_Processing_URL siteB, Error_encountered TimeoutException] \<and>
   snd (url_loop demo_env demo_out [siteA, siteB, siteC] demo_state) = None \<and>
   processed_urls (log (fst (url_loop demo_env demo_out [siteA, siteB, siteC] demo_state))) =
     [siteA, siteB, siteC] \<and>
   file_content (fst (url_loop demo_env demo_out [siteA, siteB, siteC] demo_state)) demo_out =
     lit ''\<newline>URL: siteA.com\<newline>Oak Chair\<newline>Lamp\<newline>\<newline>URL: siteC.com\<newline>Pine Table\<newline>''"
proof -
  note t = selenium_errors_do_not_stop_the_run[OF demo_raises_only,
    of demo_env demo_out "[siteA, siteB, siteC]" demo_state OtherException
       demo_state siteB TimeoutException demo_out "[siteA, siteB, siteC]" demo_state]
  have c: "concat (map contribution (run_outcomes demo_env demo_out [siteA, siteB, siteC] demo_state)) =
    lit ''\<newline>URL: siteA.com\<newline>Oak Chair\<newline>Lamp\<newline>\<newline>URL: siteC.com\<newline>Pine Table\<newline>''"
    by (simp only: demo_run_outcomes)
       (simp add: url_block_def url_marker_line_def text_line_def siteA_def siteC_def)
  have s: "processed_urls (log demo_state) = []" "file_content demo_state demo_out = []"
    "log demo_state = []"
    by (simp_all add: demo_state_def file_content_def)
  have b: "browser_failure demo_env (world demo_state) siteB = Some TimeoutException"
    by (rule demo_browser_failure)
  from t b have "snd (process_url demo_env demo_out siteB demo_state) = None \<and>
    log (fst (process_url demo_env demo_out siteB demo_state)) =
      log demo_state @ [Info_Processing_URL siteB, handler_entry siteB TimeoutException]"
    by simp
  moreover from t have "snd (url_loop demo_env demo_out [siteA, siteB, siteC] demo_state) = None"
    by simp
  moreover from t have "processed_urls (log (fst (url_loop demo_env demo_out [siteA, siteB, siteC]
      demo_state))) = processed_urls (log demo_state) @ [siteA, siteB, siteC]" by simp
  moreover from t have "file_content (fst (url_loop demo_env demo_out [siteA, siteB, siteC]
      demo_state)) demo_out = file_content demo_state demo_out @
      concat (map contribution (run_outcomes demo_env demo_out [siteA, siteB, siteC] demo_state))"
    by simp
  ultimately show ?thesis using demo_raises_only b c s by (simp add: handler_entry_def)
qed

text \<open>
  C1 as stated speaks of any exception. When the classifier raises an exception of its
  own library for the first of two URLs, the exception leaves the loop: the run ends
  there, and the second URL is never processed.
\<close>

theorem other_exception_stops_the_run_counterexample:
  "snd (url_loop crashing_env demo_out [siteA, siteB] demo_state) = Some OtherException \<and>
   processed_urls (log (fst (url_loop crashing_env demo_out [siteA, siteB] demo_state))) = [siteA] \<and>
   file_content (fst (url_loop crashing_env demo_out [siteA, siteB] demo_state)) demo_out = []"
  by (simp only: crashing_url_loop) (simp add: demo_state_def file_content_def)

text \<open>
  C5, as amended. For every run that opens its output file and reads its file of URLs,
  the output artifact is the concatenation, in processing order, of one block per
  processed URL whose scrape returned a list that is not empty: a blank line, the line
  \<^verbatim>\<open>URL: <url>\<close>, and each product name verbatim followed by a line feed. A URL
  whose scrape returned no positives, or failed, contributes nothing. The processed URLs
  are an initial part of the list. Read back line by line, a block whose URL and names
  hold no line feed and no carriage return is exactly those lines, one line per product
  name. The loop by itself, on any list of URLs and from any state, appends exactly
  these blocks to the output file.
\<close>

theorem artifact_is_the_blocks_of_the_urls_with_positives:
  assumes "os_makedirs output_directory st = (st0, None)"
      and "open_w st0 (os_path_join output_directory OUTPUT_FILE_NAME) = Inr (output_file, st1)"
      and "open_r_read st1 URLS_FILE = Inr content"
  shows "files (fst (produce_output env URLS_FILE OUTPUT_FILE_NAME st)) output_file =
           Some (concat (map contribution
             (run_outcomes env output_file (py_splitlines content) st1))) \<and>
         prefix (map fst (run_outcomes env output_file (py_splitlines content) st1))
           (py_splitlines content) \<and>
         (one_line url \<and> (\<forall>name\<in>set names. one_line name) \<longrightarrow>
            file_lines (url_block url names) = map text_line ([] # url_marker_line url # names)) \<and>
         file_content (fst (url_loop env path urls st2)) path =
           file_content st2 path @ concat (map contribution (run_outcomes env path urls st2))"
proof -
  let ?urls = "py_splitlines content"
  have run: "produce_output env URLS_FILE OUTPUT_FILE_NAME st = url_loop env output_file ?urls st1"
    using assms(3) by (simp add: produce_output_opened[OF assms(1,2)])
  have e: "files st1 output_file = Some []"
    using open_w_opened[OF assms(2)] by simp
  then have c0: "file_content st1 output_file = []" by (simp add: file_content_def)
  from e have "files st1 output_file \<noteq> None" by simp
  then have "files (fst (url_loop env output_file ?urls st1)) output_file \<noteq> None"
    using url_loop_facts[of env output_file ?urls st1] by blast
  then have "files (fst (url_loop env output_file ?urls st1)) output_file =
      Some (file_content (fst (url_loop env output_file ?urls st1)) output_file)"
    by (auto simp: file_content_def)
  also have "file_content (fst (url_loop env output_file ?urls st1)) output_file =
      concat (map contribution (run_outcomes env output_file ?urls st1))"
    using url_loop_facts[of env output_file ?urls st1] c0 by simp
  finally have a: "files (fst (produce_output env URLS_FILE OUTPUT_FILE_NAME st)) output_file =
      Some (concat (map contribution (run_outcomes env output_file ?urls st1)))"
    by (simp only: run)
  have b: "file_lines (url_block url names) = map text_line ([] # url_marker_line url # names)"
    if "one_line url \<and> (\<forall>name\<in>set names. one_line name)"
    unfolding url_block_def using that
    by (intro file_lines_text_lines) (auto simp: one_line_marker_line, simp add: one_line_def)
  have c: "file_content (fst (url_loop env path urls st2)) path =
      file_content st2 path @ concat (map contribution (run_outcomes env path urls st2))"
    using url_loop_facts[of env path urls st2] by simp
  show ?thesis using a b c run_outcomes_prefix[of env output_file ?urls st1] by blast
qed

theorem artifact_is_the_blocks_of_the_urls_with_positives_witness:
  "os_makedirs output_directory demo_files_state = (demo_files_state, None) \<and>
   open_w demo_files_state (os_path_join output_directory demo_out_name) =
     Inr (demo_out, demo_files_state\<lparr>files := (files demo_files_state)(demo_out \<mapsto> [])\<rparr>) \<and>
   open_r_read (demo_files_state\<lparr>files := (files demo_files_state)(demo_out \<mapsto> [])\<rparr>)
     demo_urls_file = Inr (lit ''siteA.com\<newline>siteB.com\<newline>siteC.com\<newline>'') \<and>
   files (fst (produce_output demo_env demo_urls_file demo_out_name demo_files_state)) demo_out =
     Some (lit ''\<newline>URL: siteA.com\<newline>Oak Chair\<newline>Lamp\<newline>\<newline>URL: siteC.com\<newline>Pine Table\<newline>'') \<and>
   one_line siteA \<and> one_line (lit ''Oak Chair'') \<and> one_line (lit ''Lamp'') \<and>
   file_lines (url_block siteA [lit ''Oak Chair'', lit ''Lamp'']) =
     [lit ''\<newline>'', lit ''URL: siteA.com\<newline>'', lit ''Oak Chair\<newline>'', lit ''Lamp\<newline>'']"
proof -
  note t = artifact_is_the_blocks_of_the_urls_with_positives[OF demo_makedirs demo_open_w
    demo_open_r_read,
    where env = demo_env and url = siteA and names = "[lit ''Oak Chair'', lit ''Lamp'']"
      and path = demo_out and urls = "[siteA, siteB, siteC]" and ?st2.0 = demo_state]
  have o: "one_line siteA" "one_line (lit ''Oak Chair'')" "one_line (lit ''Lamp'')"
    by (simp_all add: one_line_def siteA_def)
  have c: "concat (map contribution
      [(siteA, Inr (Some [lit ''Oak Chair'', lit ''Lamp''])), (siteB, Inr None),
       (siteC, Inr (Some [lit ''Pine Table'']))]) =
    lit ''\<newline>URL: siteA.com\<newline>Oak Chair\<newline>Lamp\<newline>\<newline>URL: siteC.com\<newline>Pine Table\<newline>''"
    by (simp add: url_block_def url_marker_line_def text_line_def siteA_def siteC_def)
  from t have "files (fst (produce_output demo_env demo_urls_file demo_out_name demo_files_state))
     demo_out =
     Some (concat (map contribution
       [(siteA, Inr (Some [lit ''Oak Chair'', lit ''Lamp''])), (siteB, Inr None),
        (siteC, Inr (Some [lit ''Pine Table'']))]))"
    by (simp only: demo_urls_split demo_run_outcomes)
  then have a: "files (fst (produce_output demo_env demo_urls_file demo_out_name demo_files_state))
     demo_out =
     Some (lit ''\<newline>URL: siteA.com\<newline>Oak Chair\<newline>Lamp\<newline>\<newline>URL: siteC.com\<newline>Pine Table\<newline>'')"
    by (simp only: c)
  from t o have "file_lines (url_block siteA [lit ''Oak Chair'', lit ''Lamp'']) =
      map text_line ([] # url_marker_line siteA # [lit ''Oak Chair'', lit ''Lamp''])"
    by simp
  then have b: "file_lines (url_block siteA [lit ''Oak Chair'', lit ''Lamp'']) =
     [lit ''\<newline>'', lit ''URL: siteA.com\<newline>'', lit ''Oak Chair\<newline>'', lit ''Lamp\<newline>'']"
    by (simp add: text_line_def url_marker_line_def siteA_def)
  show ?thesis
    by (intro conjI) (rule demo_makedirs demo_open_w demo_open_r_read a o b)+
qed

text \<open>
  C5 as stated has one line per product name. A product name is the trimmed text of a
  text node and may hold a line break: on a page whose markup breaks the line inside
  \<^verbatim>\<open>Oak Chair\<close>, the scrape returns the one name \<^verbatim>\<open>Oak\<close>, line feed,
  \<^verbatim>\<open>  Chair\<close>, which the run writes as it is, and the block of each URL holds two
  lines for it.
\<close>

theorem name_with_line_break_takes_two_lines_counterexample:
  "snd (scrape_product_names wrapped_env siteA demo_files_state) =
     Inr (Some [lit ''Oak\<newline>  Chair'']) \<and>
   snd (produce_output wrapped_env demo_urls_file demo_out_name demo_files_state) = None \<and>
   file_lines (file_content
      (fst (produce_output wrapped_env demo_urls_file demo_out_name demo_files_state)) demo_out) =
     [lit ''\<newline>'', lit ''URL: siteA.com\<newline>'', lit ''Oak\<newline>'', lit ''  Chair\<newline>'',
      lit ''\<newline>'', lit ''URL: siteB.com\<newline>'', lit ''Oak\<newline>'', lit ''  Chair\<newline>'',
      lit ''\<newline>'', lit ''URL: siteC.com\<newline>'', lit ''Oak\<newline>'', lit ''  Chair\<newline>'']"
proof -
  have e: "file_content (demo_files_state\<lparr>files := (files demo_files_state)(demo_out \<mapsto> [])\<rparr>)
      demo_out = []"
    by (simp add: file_content_def)
  have "snd (url_loop wrapped_env demo_out [siteA, siteB, siteC]
      (demo_files_state\<lparr>files := (files demo_files_state)(demo_out \<mapsto> [])\<rparr>)) = None"
    by (simp add: process_url_def wrapped_scrape)
  then have r: "snd (produce_output wrapped_env demo_urls_file demo_out_name demo_files_state) = None"
    by (simp only: demo_produce_output)
  have l: "file_lines (file_content
      (fst (produce_output wrapped_env demo_urls_file demo_out_name demo_files_state)) demo_out) =
     [lit ''\<newline>'', lit ''URL: siteA.com\<newline>'', lit ''Oak\<newline>'', lit ''  Chair\<newline>'',
      lit ''\<newline>'', lit ''URL: siteB.com\<newline>'', lit ''Oak\<newline>'', lit ''  Chair\<newline>'',
      lit ''\<newline>'', lit ''URL: siteC.com\<newline>'', lit ''Oak\<newline>'', lit ''  Chair\<newline>'']"
    by (simp only: demo_produce_output wrapped_url_loop e) (simp add: file_lines_def)
  have s: "snd (scrape_product_names wrapped_env siteA demo_files_state) =
     Inr (Some [lit ''Oak\<newline>  Chair''])"
    by (simp only: wrapped_scrape snd_conv)
  show ?thesis by (intro conjI) (rule s r l)+
qed

text \<open>
  C10. A run that opens its output file starts by emptying it, before it reads the file
  of URLs and before any URL is processed: the open file is empty and the log is as it
  was; whatever the file held before, the run and its result are the same; and the run
  is the loop started on the emptied file. In the loop, every step and the loop as a
  whole only extend the content of the output file, and no other file changes.
\<close>

theorem artifact_is_truncated_then_only_appended:
  assumes "os_makedirs output_directory st = (st0, None)"
      and "open_w st0 (os_path_join output_directory OUTPUT_FILE_NAME) = Inr (output_file, st1)"
  shows "files st1 = (files st)(output_file \<mapsto> []) \<and> log st1 = log st \<and>
         produce_output env URLS_FILE OUTPUT_FILE_NAME
           (st\<lparr>files := (files st)(output_file \<mapsto> old)\<rparr>) =
         produce_output env URLS_FILE OUTPUT_FILE_NAME st \<and>
         (open_r_read st1 URLS_FILE = Inr content \<longrightarrow>
            produce_output env URLS_FILE OUTPUT_FILE_NAME st =
              url_loop env output_file (py_splitlines content) st1) \<and>
         prefix (file_content st2 path) (file_content (fst (process_url env path url st2)) path) \<and>
         prefix (file_content st2 path) (file_content (fst (url_loop env path urls st2)) path) \<and>
         (p \<noteq> path \<longrightarrow> files (fst (url_loop env path urls st2)) p = files st2 p)"
proof -
  have a: "files st1 = (files st)(output_file \<mapsto> [])" "log st1 = log st"
    using opened_file_is_empty[OF assms] by simp_all
  have b: "produce_output env URLS_FILE OUTPUT_FILE_NAME
           (st\<lparr>files := (files st)(output_file \<mapsto> old)\<rparr>) =
         produce_output env URLS_FILE OUTPUT_FILE_NAME st"
    by (rule produce_output_old_content[OF assms])
  have c: "produce_output env URLS_FILE OUTPUT_FILE_NAME st =
              url_loop env output_file (py_splitlines content) st1"
    if "open_r_read st1 URLS_FILE = Inr content"
    using that by (simp add: produce_output_opened[OF assms])
  have d: "prefix (file_content st2 path) (file_content (fst (process_url env path url st2)) path)"
    using process_url_facts[of env path url st2] by simp
  have e: "prefix (file_content st2 path) (file_content (fst (url_loop env path urls st2)) path)"
    using url_loop_facts[of env path urls st2] by simp
  have f: "files (fst (url_loop env path urls st2)) p = files st2 p" if "p \<noteq> path"
    using url_loop_facts[of env path urls st2] that by blast
  show ?thesis using a b c d e f by blast
qed

theorem artifact_is_truncated_then_only_appended_witness:
  "os_makedirs output_directory demo_files_state = (demo_files_state, None) \<and>
   open_w demo_files_state (os_path_join output_directory demo_out_name) =
     Inr (demo_out, demo_files_state\<lparr>files := (files demo_files_state)(demo_out \<mapsto> [])\<rparr>) \<and>
   open_r_read (demo_files_state\<lparr>files := (files demo_files_state)(demo_out \<mapsto> [])\<rparr>)
     demo_urls_file = Inr (lit ''siteA.com\<newline>siteB.com\<newline>siteC.com\<newline>'') \<and>
   file_content demo_files_state demo_out = lit ''\<newline>URL: old.com\<newline>Old Sofa\<newline>'' \<and>
   produce_output demo_env demo_urls_file demo_out_name
     (demo_files_state\<lparr>files := (files demo_files_state)(demo_out \<mapsto> lit ''x'')\<rparr>) =
   produce_output demo_env demo_urls_file demo_out_name demo_files_state \<and>
   file_content (fst (produce_output demo_env demo_urls_file demo_out_name demo_files_state))
     demo_out =
     lit ''\<newline>URL: siteA.com\<newline>Oak Chair\<newline>Lamp\<newline>\<newline>URL: siteC.com\<newline>Pine Table\<newline>'' \<and>
   prefix (lit ''\<newline>URL: old.com\<newline>Old Sofa\<newline>'')
     (file_content (fst (url_loop demo_env demo_out [siteA, siteB, siteC] demo_files_state))
        demo_out) \<and>
   [lit ''app'', lit ''urls.csv''] \<noteq> demo_out \<and>
   files (fst (url_loop demo_env demo_out [siteA, siteB, siteC] demo_files_state))
     [lit ''app'', lit ''urls.csv''] =
     Some (lit ''siteA.com\<newline>siteB.com\<newline>siteC.com\<newline>'')"
proof -
  let ?st1 = "demo_files_state\<lparr>files := (files demo_files_state)(demo_out \<mapsto> [])\<rparr>"
  note t = artifact_is_truncated_then_only_appended[OF demo_makedirs demo_open_w,
    where env = demo_env and URLS_FILE = demo_urls_file and old = "lit ''x''"
      and content = "lit ''siteA.com\<newline>siteB.com\<newline>siteC.com\<newline>''"
      and ?st2.0 = demo_files_state and path = demo_out and url = siteA
      and urls = "[siteA, siteB, siteC]" and p = "[lit ''app'', lit ''urls.csv'']"]
  have old: "file_content demo_files_state demo_out = lit ''\<newline>URL: old.com\<newline>Old Sofa\<newline>''"
    by (simp add: demo_files_state_def file_content_def)
  have ne: "[lit ''app'', lit ''urls.csv''] \<noteq> demo_out"
    by (simp add: demo_out_def)
  have u: "files demo_files_state [lit ''app'', lit ''urls.csv''] =
      Some (lit ''siteA.com\<newline>siteB.com\<newline>siteC.com\<newline>'')"
    by (simp add: demo_files_state_def demo_out_def)
  from t have 1: "produce_output demo_env demo_urls_file demo_out_name
     (demo_files_state\<lparr>files := (files demo_files_state)(demo_out \<mapsto> lit ''x'')\<rparr>) =
     produce_output demo_env demo_urls_file demo_out_name demo_files_state"
    by blast
  from t demo_open_r_read have 2:
    "produce_output demo_env demo_urls_file demo_out_name demo_files_state =
       url_loop demo_env demo_out
         (py_splitlines (lit ''siteA.com\<newline>siteB.com\<newline>siteC.com\<newline>'')) ?st1"
    by blast
  have 3: "file_content (fst (produce_output demo_env demo_urls_file demo_out_name demo_files_state))
     demo_out =
     lit ''\<newline>URL: siteA.com\<newline>Oak Chair\<newline>Lamp\<newline>\<newline>URL: siteC.com\<newline>Pine Table\<newline>''"
    by (simp only: 2 demo_urls_split demo_url_loop)
       (simp add: file_content_def file_write_def siteA_def siteC_def)
  from t have "prefix (file_content demo_files_state demo_out)
     (file_content (fst (url_loop demo_env demo_out [siteA, siteB, siteC] demo_files_state))
        demo_out)"
    by blast
  then have 4: "prefix (lit ''\<newline>URL: old.com\<newline>Old Sofa\<newline>'')
     (file_content (fst (url_loop demo_env demo_out [siteA, siteB, siteC] demo_files_state))
        demo_out)"
    by (simp only: old)
  from t ne have "files (fst (url_loop demo_env demo_out [siteA, siteB, siteC] demo_files_state))
     [lit ''app'', lit ''urls.csv''] = files demo_files_state [lit ''app'', lit ''urls.csv'']"
    by blast
  then have 5: "files (fst (url_loop demo_env demo_out [siteA, siteB, siteC] demo_files_state))
     [lit ''app'', lit ''urls.csv''] =
     Some (lit ''siteA.com\<newline>siteB.com\<newline>siteC.com\<newline>'')"
    by (simp only: u)
  show ?thesis
    by (intro conjI) (rule demo_makedirs demo_open_w demo_open_r_read old 1 3 4 ne 5)+
qed

section \<open>Search Indexer: the claims\<close>

text \<open>
  C6. Ingesting into an empty index the artifact made of the block of URL \<open>A\<close> with the
  names \<open>n1\<close> and \<open>n2\<close> and the block of URL \<open>B\<close> with the name \<open>n3\<close> gives exactly the
  three documents \<open>(A, n1)\<close>, \<open>(A, n2)\<close> and \<open>(B, n3)\<close>, for URLs and names that are
  plain: on one line, without surrounding whitespace, a URL free of the marker text, a
  name not empty and not starting with the marker.
\<close>

theorem round_trip_three_documents:
  assumes "plain_url A" and "plain_url B"
      and "plain_name n1" and "plain_name n2" and "plain_name n3"
  shows "add_data_to_index (Some []) (Some (url_block A [n1, n2] @ url_block B [n3])) =
           (Some [Document A n1, Document A n2, Document B n3], None)"
proof -
  let ?lines = "[[], url_marker_line A, n1, n2, [], url_marker_line B, n3]"
  have art: "url_block A [n1, n2] @ url_block B [n3] = concat (map text_line ?lines)"
    by (simp add: url_block_def)
  have "\<forall>l\<in>set ?lines. one_line l"
    using assms
    by (simp add: plain_url_def plain_name_def one_line_marker_line) (simp add: one_line_def)
  then have lines: "file_lines (concat (map text_line ?lines)) = map text_line ?lines"
    by (rule file_lines_text_lines)
  have fl: "file_lines (url_block A [n1, n2] @ url_block B [n3]) = map text_line ?lines"
    by (simp only: art lines)
  show ?thesis
    using assms
    by (simp add: add_data_to_index_def fl blank_line plain_url_line plain_name_line)
qed

theorem round_trip_three_documents_witness:
  "plain_url (lit ''A'') \<and> plain_url (lit ''B'') \<and>
   plain_name (lit ''n1'') \<and> plain_name (lit ''n2'') \<and> plain_name (lit ''n3'') \<and>
   add_data_to_index (Some [])
     (Some (lit ''\<newline>URL: A\<newline>n1\<newline>n2\<newline>\<newline>URL: B\<newline>n3\<newline>'')) =
     (Some [Document (lit ''A'') (lit ''n1''), Document (lit ''A'') (lit ''n2''),
            Document (lit ''B'') (lit ''n3'')], None)"
proof -
  have "url_block (lit ''A'') [lit ''n1'', lit ''n2''] @ url_block (lit ''B'') [lit ''n3''] =
        lit ''\<newline>URL: A\<newline>n1\<newline>n2\<newline>\<newline>URL: B\<newline>n3\<newline>''"
    by (simp add: url_block_def url_marker_line_def text_line_def)
  with round_trip_three_documents[OF plain_examples] plain_examples show ?thesis
    by simp
qed

text \<open>
  C7, as amended. A marker line \<^verbatim>\<open>URL: <u>\<close> whose \<open>u\<close> does not contain the marker text
  sets the cursor to \<open>u\<close> trimmed of surrounding whitespace, whatever the cursor was, and
  every document made from the lines that follow it, up to the next marker line, carries
  that URL. So for every file with such a marker line anywhere in it, followed by lines
  that are not markers, the documents added to the index are those of the lines before
  it, then one document with that URL per non-blank line after it, then those of the
  remaining lines, read with that URL as the cursor.
\<close>

theorem marker_line_sets_cursor:
  assumes "\<not> sublist URL_marker u"
      and "\<forall>l\<in>set body. \<not> py_startswith (py_strip l) URL_marker"
  shows "index_lines (text_line (url_marker_line u) # body) (cur, docs) =
           Inr (py_strip u,
                docs @ map (\<lambda>l. Document (py_strip u) (py_strip l))
                         (filter (\<lambda>l. py_strip l \<noteq> []) body)) \<and>
         (file_lines text = pre @ text_line (url_marker_line u) # body @ rest \<longrightarrow>
            (\<exists>c0 before c1 after.
               index_lines pre ([], []) = Inr (c0, before) \<and>
               index_lines rest (py_strip u, []) = Inr (c1, after) \<and>
               add_data_to_index (Some committed) (Some text) =
                 (Some (committed @ before @
                        map (\<lambda>l. Document (py_strip u) (py_strip l))
                          (filter (\<lambda>l. py_strip l \<noteq> []) body) @ after),
                  None)))"
proof
  let ?mid = "map (\<lambda>l. Document (py_strip u) (py_strip l)) (filter (\<lambda>l. py_strip l \<noteq> []) body)"
  show seg: "index_lines (text_line (url_marker_line u) # body) (cur, docs) =
      Inr (py_strip u, docs @ ?mid)" for cur docs
    using assms by (simp add: index_line_marker index_lines_content)
  show "file_lines text = pre @ text_line (url_marker_line u) # body @ rest \<longrightarrow>
            (\<exists>c0 before c1 after.
               index_lines pre ([], []) = Inr (c0, before) \<and>
               index_lines rest (py_strip u, []) = Inr (c1, after) \<and>
               add_data_to_index (Some committed) (Some text) =
                 (Some (committed @ before @ ?mid @ after), None))"
  proof
    assume fl: "file_lines text = pre @ text_line (url_marker_line u) # body @ rest"
    obtain c0 before where p: "index_lines pre ([], []) = Inr (c0, before)"
      using index_lines_from_empty by blast
    obtain c1 after where r: "index_lines rest (py_strip u, []) = Inr (c1, after)"
      and r': "\<And>docs. index_lines rest (py_strip u, docs) = Inr (c1, docs @ after)"
      using index_lines_from_empty by blast
    have "file_lines text = pre @ (text_line (url_marker_line u) # body) @ rest"
      using fl by simp
    then have "index_lines (file_lines text) ([], []) = Inr (c1, (before @ ?mid) @ after)"
      by (simp only: index_lines_append p seg r' sum.case)
    then have "add_data_to_index (Some committed) (Some text) =
        (Some (committed @ before @ ?mid @ after), None)"
      by (simp add: add_data_to_index_def)
    with p r show "\<exists>c0 before c1 after.
               index_lines pre ([], []) = Inr (c0, before) \<and>
               index_lines rest (py_strip u, []) = Inr (c1, after) \<and>
               add_data_to_index (Some committed) (Some text) =
                 (Some (committed @ before @ ?mid @ after), None)"
      by blast
  qed
qed

theorem marker_line_sets_cursor_witness:
  "\<not> sublist URL_marker (lit ''http://x.com '') \<and>
   \<not> py_startswith (py_strip (lit ''Oak Chair\<newline>'')) URL_marker \<and>
   \<not> py_startswith (py_strip (lit ''\<newline>'')) URL_marker \<and>
   file_lines (lit ''Stool\<newline>URL: http://x.com \<newline>Oak Chair\<newline>\<newline>URL: B\<newline>n3\<newline>'') =
     [lit ''Stool\<newline>''] @ text_line (url_marker_line (lit ''http://x.com '')) #
     [lit ''Oak Chair\<newline>'', lit ''\<newline>''] @ [lit ''URL: B\<newline>'', lit ''n3\<newline>''] \<and>
   index_lines [lit ''URL: http://x.com \<newline>'', lit ''Oak Chair\<newline>'', lit ''\<newline>''] ([], []) =
     Inr (lit ''http://x.com'', [Document (lit ''http://x.com'') (lit ''Oak Chair'')]) \<and>
   add_data_to_index (Some [])
     (Some (lit ''Stool\<newline>URL: http://x.com \<newline>Oak Chair\<newline>\<newline>URL: B\<newline>n3\<newline>'')) =
     (Some [Document [] (lit ''Stool''), Document (lit ''http://x.com'') (lit ''Oak Chair''),
            Document (lit ''B'') (lit ''n3'')], None)"
proof -
  let ?text = "lit ''Stool\<newline>URL: http://x.com \<newline>Oak Chair\<newline>\<newline>URL: B\<newline>n3\<newline>''"
  let ?u = "lit ''http://x.com ''"
  let ?pre = "[lit ''Stool\<newline>'']"
  let ?body = "[lit ''Oak Chair\<newline>'', lit ''\<newline>'']"
  let ?rest = "[lit ''URL: B\<newline>'', lit ''n3\<newline>'']"
  have 1: "\<not> sublist URL_marker ?u"
    by (simp add: URL_marker_def sublist_Cons_right)
  have 2: "\<forall>l\<in>set ?body. \<not> py_startswith (py_strip l) URL_marker"
    by (simp add: py_startswith_def URL_marker_def py_strip_def strip_with_def rstrip_with_def
        py_isspace_def)
  have 3: "file_lines ?text = ?pre @ text_line (url_marker_line ?u) # ?body @ ?rest"
    by (simp add: file_lines_def text_line_def url_marker_line_def)
  note t = marker_line_sets_cursor[OF 1 2, of "[]" "[]" ?text ?pre ?rest "[]"]
  from t have 4: "index_lines [lit ''URL: http://x.com \<newline>'', lit ''Oak Chair\<newline>'', lit ''\<newline>'']
      ([], []) = Inr (lit ''http://x.com'', [Document (lit ''http://x.com'') (lit ''Oak Chair'')])"
    by (simp add: text_line_def url_marker_line_def py_strip_def strip_with_def rstrip_with_def
        py_isspace_def)
  from t 3 obtain c0 before c1 after where
    p: "index_lines ?pre ([], []) = Inr (c0, before)" and
    r: "index_lines ?rest (py_strip ?u, []) = Inr (c1, after)" and
    a: "add_data_to_index (Some []) (Some ?text) =
         (Some ([] @ before @
                map (\<lambda>l. Document (py_strip ?u) (py_strip l))
                  (filter (\<lambda>l. py_strip l \<noteq> []) ?body) @ after), None)"
    by blast
  have "index_lines ?pre ([], []) = Inr ([], [Document [] (lit ''Stool'')])"
    by (simp add: index_eval)
  with p have before: "before = [Document [] (lit ''Stool'')]" by simp
  have "index_lines ?rest (py_strip ?u, []) =
      Inr (lit ''B'', [Document (lit ''B'') (lit ''n3'')])"
    by (simp add: index_eval)
  with r have after: "after = [Document (lit ''B'') (lit ''n3'')]" by simp
  have 5: "add_data_to_index (Some []) (Some ?text) =
     (Some [Document [] (lit ''Stool''), Document (lit ''http://x.com'') (lit ''Oak Chair''),
            Document (lit ''B'') (lit ''n3'')], None)"
    using a unfolding before after
    by (simp add: py_strip_def strip_with_def rstrip_with_def py_isspace_def)
  show ?thesis using 1 2 3 4 5 by simp
qed

text \<open>
  C7 as stated says that the cursor is exactly \<open>u\<close>. For a URL that ends with a space,
  as a line of the file of URLs may, the cursor is the URL without that space.
\<close>

theorem marker_line_cursor_counterexample:
  "index_line (text_line (url_marker_line (lit ''http://x.com ''))) ([], []) =
     Inr (lit ''http://x.com'', []) \<and>
   lit ''http://x.com'' \<noteq> lit ''http://x.com ''"
  by (simp add: index_line_def text_line_def url_marker_line_def py_startswith_def URL_marker_def py_strip_def
      strip_with_def rstrip_with_def py_isspace_def py_split_sep_def py_index_def
      split_sep.simps[of "[85, 82, 76, 58]"])

text \<open>
  C9. For every file, the lines before the first marker line that are not blank become
  documents whose URL is the empty string, in order and ahead of the documents of the
  remaining lines: the cursor starts as the empty string, and it is still the empty string
  where the remaining lines begin.
\<close>

theorem lines_before_first_marker_have_empty_url:
  assumes "file_lines text = pre @ rest"
      and "\<forall>l\<in>set pre. \<not> py_startswith (py_strip l) URL_marker"
  shows "\<exists>c more.
           index_lines rest ([], []) = Inr (c, more) \<and>
           add_data_to_index (Some committed) (Some text) =
             (Some (committed @
                    map (\<lambda>l. Document [] (py_strip l)) (filter (\<lambda>l. py_strip l \<noteq> []) pre) @
                    more),
              None)"
proof -
  let ?docs = "map (\<lambda>l. Document [] (py_strip l)) (filter (\<lambda>l. py_strip l \<noteq> []) pre)"
  have pre: "index_lines pre ([], []) = Inr ([], ?docs)"
    using index_lines_content[OF assms(2), of "[]" "[]"] by simp
  obtain c more where r: "index_lines rest ([], []) = Inr (c, more)"
      and r': "\<And>docs. index_lines rest ([], docs) = Inr (c, docs @ more)"
    using index_lines_from_empty by blast
  have "index_lines (file_lines text) ([], []) = Inr (c, ?docs @ more)"
    by (simp add: assms(1) index_lines_append pre r')
  then have "add_data_to_index (Some committed) (Some text) =
      (Some (committed @ ?docs @ more), None)"
    by (simp add: add_data_to_index_def)
  with r show ?thesis by blast
qed

theorem lines_before_first_marker_have_empty_url_witness:
  "file_lines (lit ''Stool\<newline>\<newline>URL: A\<newline>n1\<newline>'') =
     [lit ''Stool\<newline>'', lit ''\<newline>''] @ [lit ''URL: A\<newline>'', lit ''n1\<newline>''] \<and>
   \<not> py_startswith (py_strip (lit ''Stool\<newline>'')) URL_marker \<and>
   \<not> py_startswith (py_strip (lit ''\<newline>'')) URL_marker \<and>
   add_data_to_index (Some []) (Some (lit ''Stool\<newline>\<newline>URL: A\<newline>n1\<newline>'')) =
     (Some [Document [] (lit ''Stool''), Document (lit ''A'') (lit ''n1'')], None)"
proof -
  let ?text = "lit ''Stool\<newline>\<newline>URL: A\<newline>n1\<newline>''"
  let ?pre = "[lit ''Stool\<newline>'', lit ''\<newline>'']"
  let ?rest = "[lit ''URL: A\<newline>'', lit ''n1\<newline>'']"
  have 1: "file_lines ?text = ?pre @ ?rest" by (simp add: file_lines_def)
  have 2: "\<forall>l\<in>set ?pre. \<not> py_startswith (py_strip l) URL_marker"
    by (simp add: py_startswith_def URL_marker_def py_strip_def strip_with_def rstrip_with_def
        py_isspace_def)
  from lines_before_first_marker_have_empty_url[OF 1 2, of "[]"] obtain c more where
    r: "index_lines ?rest ([], []) = Inr (c, more)" and
    a: "add_data_to_index (Some []) (Some ?text) =
        (Some ([] @ map (\<lambda>l. Document [] (py_strip l)) (filter (\<lambda>l. py_strip l \<noteq> []) ?pre) @ more),
         None)"
    by blast
  have "index_lines ?rest ([], []) = Inr (lit ''A'', [Document (lit ''A'') (lit ''n1'')])"
    by (simp add: index_eval)
  with r have more: "more = [Document (lit ''A'') (lit ''n1'')]" by simp
  have 3: "add_data_to_index (Some []) (Some ?text) =
     (Some [Document [] (lit ''Stool''), Document (lit ''A'') (lit ''n1'')], None)"
    using a unfolding more
    by (simp add: py_strip_def strip_with_def rstrip_with_def py_isspace_def)
  show ?thesis using 1 2 3 by simp
qed

end
